theory Spec2Isabelle
  imports Main "HOL-Library.Word" "HOL-Library.Sublist" "HOL-Library.AList"
begin

unbundle bit_operations_syntax

section \<open>Strings\<close>

text \<open>
  A Python \<open>str\<close> is modelled as a \<open>string\<close> whose characters are the code points
  U+0000 to U+00FF. On this range \<open>str.lower\<close> maps \<open>A\<close>..\<open>Z\<close> and the Latin-1
  capitals U+00C0..U+00DE (without the multiplication sign U+00D7) to the letter 32
  places further, and \<open>str.strip\<close> removes the white space characters
  U+0009..U+000D, U+001C..U+0020, U+0085 and U+00A0 from both ends.
\<close>

definition lower_char :: "char \<Rightarrow> char" where
  "lower_char c =
     (let n = (of_char c :: nat)
      in if (65 \<le> n \<and> n \<le> 90) \<or> (192 \<le> n \<and> n \<le> 222 \<and> n \<noteq> 215)
         then char_of (n + 32) else c)"

definition lower :: "string \<Rightarrow> string" where
  "lower s = map lower_char s"

definition isspace :: "char \<Rightarrow> bool" where
  "isspace c =
     (let n = (of_char c :: nat)
      in (9 \<le> n \<and> n \<le> 13) \<or> (28 \<le> n \<and> n \<le> 32) \<or> n = 133 \<or> n = 160)"

definition strip :: "string \<Rightarrow> string" where
  "strip s = rev (dropWhile isspace (rev (dropWhile isspace s)))"

text \<open>\<open>s.replace(a, b)\<close> for one-character strings \<open>a\<close> and \<open>b\<close>.\<close>

definition replace :: "char \<Rightarrow> char \<Rightarrow> string \<Rightarrow> string" where
  "replace a b s = map (\<lambda>c. if c = a then b else c) s"

text \<open>\<open>s.encode()\<close>: UTF-8, one byte below U+0080 and two bytes from there to U+00FF.\<close>

definition encode_char :: "char \<Rightarrow> 8 word list" where
  "encode_char c =
     (let n = (of_char c :: nat)
      in if n < 128 then [word_of_nat n]
         else [word_of_nat (192 + n div 64), word_of_nat (128 + n mod 64)])"

definition encode :: "string \<Rightarrow> 8 word list" where
  "encode s = concat (map encode_char s)"

section \<open>MD5 (\<open>hashlib.md5\<close>)\<close>

text \<open>
  The digest of the standard library is modelled after RFC 1321: the message is padded
  to a multiple of 64 bytes, cut into blocks of sixteen little-endian 32-bit words, and
  each block runs through 64 steps on a state of four 32-bit words.
\<close>

definition md5_K :: "32 word list" where
  "md5_K =
    [0xd76aa478, 0xe8c7b756, 0x242070db, 0xc1bdceee, 0xf57c0faf, 0x4787c62a, 0xa8304613, 0xfd469501,
     0x698098d8, 0x8b44f7af, 0xffff5bb1, 0x895cd7be, 0x6b901122, 0xfd987193, 0xa679438e, 0x49b40821,
     0xf61e2562, 0xc040b340, 0x265e5a51, 0xe9b6c7aa, 0xd62f105d, 0x02441453, 0xd8a1e681, 0xe7d3fbc8,
     0x21e1cde6, 0xc33707d6, 0xf4d50d87, 0x455a14ed, 0xa9e3e905, 0xfcefa3f8, 0x676f02d9, 0x8d2a4c8a,
     0xfffa3942, 0x8771f681, 0x6d9d6122, 0xfde5380c, 0xa4beea44, 0x4bdecfa9, 0xf6bb4b60, 0xbebfbc70,
     0x289b7ec6, 0xeaa127fa, 0xd4ef3085, 0x04881d05, 0xd9d4d039, 0xe6db99e5, 0x1fa27cf8, 0xc4ac5665,
     0xf4292244, 0x432aff97, 0xab9423a7, 0xfc93a039, 0x655b59c3, 0x8f0ccc92, 0xffeff47d, 0x85845dd1,
     0x6fa87e4f, 0xfe2ce6e0, 0xa3014314, 0x4e0811a1, 0xf7537e82, 0xbd3af235, 0x2ad7d2bb, 0xeb86d391]"

definition md5_s :: "nat list" where
  "md5_s =
    [7, 12, 17, 22, 7, 12, 17, 22, 7, 12, 17, 22, 7, 12, 17, 22,
     5, 9, 14, 20, 5, 9, 14, 20, 5, 9, 14, 20, 5, 9, 14, 20,
     4, 11, 16, 23, 4, 11, 16, 23, 4, 11, 16, 23, 4, 11, 16, 23,
     6, 10, 15, 21, 6, 10, 15, 21, 6, 10, 15, 21, 6, 10, 15, 21]"

type_synonym md5_state = "32 word \<times> 32 word \<times> 32 word \<times> 32 word"

definition md5_init :: md5_state where
  "md5_init = (0x67452301, 0xefcdab89, 0x98badcfe, 0x10325476)"

text \<open>The \<open>n\<close> low bytes of a word, least significant first.\<close>

definition le_bytes :: "nat \<Rightarrow> 'a::len word \<Rightarrow> 8 word list" where
  "le_bytes n w = map (\<lambda>i. ucast (drop_bit (8 * i) w)) [0..<n]"

definition md5_pad :: "8 word list \<Rightarrow> 8 word list" where
  "md5_pad m =
     m @ [0x80] @ replicate ((119 - length m mod 64) mod 64) 0 @
     le_bytes 8 (word_of_nat (8 * length m) :: 64 word)"

function md5_blocks :: "8 word list \<Rightarrow> 8 word list list" where
  "md5_blocks m = (if m = [] then [] else take 64 m # md5_blocks (drop 64 m))"
  by pat_completeness auto
termination
  by (relation "measure length") auto

declare md5_blocks.simps [simp del]

definition le_word :: "8 word list \<Rightarrow> 32 word" where
  "le_word bs = foldr (\<lambda>b w. push_bit 8 w + ucast b) bs 0"

definition md5_words :: "8 word list \<Rightarrow> 32 word list" where
  "md5_words block = map (\<lambda>i. le_word (take 4 (drop (4 * i) block))) [0..<16]"

definition md5_step :: "32 word list \<Rightarrow> nat \<Rightarrow> md5_state \<Rightarrow> md5_state" where
  "md5_step M i st =
     (case st of (a, b, c, d) \<Rightarrow>
        let (f, g) =
              (if i < 16 then ((b AND c) OR (NOT b AND d), i)
               else if i < 32 then ((d AND b) OR (NOT d AND c), (5 * i + 1) mod 16)
               else if i < 48 then (b XOR c XOR d, (3 * i + 5) mod 16)
               else (c XOR (b OR NOT d), (7 * i) mod 16));
            f' = f + a + md5_K ! i + M ! g
        in (d, b + word_rotl (md5_s ! i) f', b, c))"

definition md5_block :: "md5_state \<Rightarrow> 8 word list \<Rightarrow> md5_state" where
  "md5_block st block =
     (case st of (a0, b0, c0, d0) \<Rightarrow>
        case fold (md5_step (md5_words block)) [0..<64] st of (a, b, c, d) \<Rightarrow>
          (a0 + a, b0 + b, c0 + c, d0 + d))"

definition word_bytes :: "32 word \<Rightarrow> 8 word list" where
  "word_bytes w = le_bytes 4 w"

definition md5_digest :: "8 word list \<Rightarrow> 8 word list" where
  "md5_digest m =
     (case fold (\<lambda>block st. md5_block st block) (md5_blocks (md5_pad m)) md5_init of
        (a, b, c, d) \<Rightarrow> word_bytes a @ word_bytes b @ word_bytes c @ word_bytes d)"

definition hex_digit :: "nat \<Rightarrow> char" where
  "hex_digit n = ''0123456789abcdef'' ! n"

definition hex_byte :: "8 word \<Rightarrow> string" where
  "hex_byte b = [hex_digit (unat b div 16), hex_digit (unat b mod 16)]"

definition md5_hexdigest :: "8 word list \<Rightarrow> string" where
  "md5_hexdigest m = concat (map hex_byte (md5_digest m))"

definition is_hex :: "char \<Rightarrow> bool" where
  "is_hex c = (c \<in> set ''0123456789abcdef'')"

section \<open>Scraper: word normalisation\<close>

text \<open>
  The functions keep the names of the methods they model; the private methods
  \<open>_normalize_word\<close>, \<open>_fetch_page\<close>, \<open>_get_cache_filename\<close> and
  \<open>_get_cache_path\<close> lose their leading underscore.
\<close>

definition normalize_word :: "string \<Rightarrow> string" where
  "normalize_word word = replace CHR '' '' CHR ''-'' (strip (lower word))"

section \<open>Downloader: cache file names\<close>

definition safe_word :: "string \<Rightarrow> string" where
  "safe_word word = replace CHR ''-'' CHR ''_'' (replace CHR '' '' CHR ''_'' (lower word))"

definition url_hash :: "string \<Rightarrow> string" where
  "url_hash video_url = take 8 (md5_hexdigest (encode video_url))"

definition get_cache_filename :: "string \<Rightarrow> string \<Rightarrow> string" where
  "get_cache_filename word video_url = safe_word word @ ''_'' @ url_hash video_url @ ''.mp4''"

section \<open>Exceptions\<close>

text \<open>
  The exceptions the program can meet. \<open>HTTPError\<close> (with the status code of its
  response) and every other error of the HTTP library are instances of
  \<open>requests.exceptions.RequestException\<close>; \<open>OSError\<close> stands for an error of the file
  system (\<open>open\<close>, \<open>write\<close>, \<open>unlink\<close>) and \<open>ParserError\<close> for an error raised while
  the HTML parser builds the document: neither of them is a \<open>RequestException\<close>, nor
  are the exceptions that \<open>Path.glob\<close> raises on a pattern it does not accept.
\<close>

datatype exn =
    HTTPError nat | RequestException | OSError | ParserError
  | ValueError | NotImplementedError | IndexError | AttributeError

fun is_RequestException :: "exn \<Rightarrow> bool" where
  "is_RequestException (HTTPError _) = True"
| "is_RequestException RequestException = True"
| "is_RequestException _ = False"

section \<open>Scraper\<close>

text \<open>
  A parsed document: an element has a tag name, its attribute dictionary and its
  children. The document itself (the \<open>BeautifulSoup\<close> object) is the list of its
  top-level nodes.
\<close>

datatype node = Element string "(string \<times> string) list" "node list" | Text string

type_synonym soup = "node list"

text \<open>All elements below a node, the node included, in document order.\<close>

fun elements :: "node \<Rightarrow> node list" where
  "elements (Text _) = []"
| "elements (Element t a cs) = Element t a cs # concat (map elements cs)"

fun has_name :: "string \<Rightarrow> node \<Rightarrow> bool" where
  "has_name n (Element t _ _) = (t = n)"
| "has_name n (Text _) = False"

definition find_all :: "string \<Rightarrow> soup \<Rightarrow> node list" where
  "find_all n doc = filter (has_name n) (concat (map elements doc))"

text \<open>\<open>tag.get(key)\<close>\<close>

fun get_attr :: "node \<Rightarrow> string \<Rightarrow> string option" where
  "get_attr (Element _ a _) k = map_of a k"
| "get_attr (Text _) k = None"

text \<open>
  What the site answers to a GET request: no response at all (the request raises), or a
  response with a status code and a body, which the parser turns into a document or
  fails on.
\<close>

datatype http_result = No_response exn | Response nat "exn + soup"

definition BASE_URL :: "string \<Rightarrow> string" where
  "BASE_URL word = ''https://www.signasl.org/sign/'' @ word"

text \<open>\<open>response.raise_for_status()\<close>\<close>

definition raise_for_status :: "nat \<Rightarrow> exn option" where
  "raise_for_status status = (if 400 \<le> status \<and> status < 600 then Some (HTTPError status) else None)"

definition fetch_page :: "(string \<Rightarrow> http_result) \<Rightarrow> string \<Rightarrow> exn + soup option" where
  "fetch_page web word =
     (let normalized_word = normalize_word word;
          url = BASE_URL normalized_word;
          attempt =
            (case web url of
               No_response e \<Rightarrow> Inl e
             | Response status body \<Rightarrow>
                 (case raise_for_status status of
                    Some e \<Rightarrow> Inl e
                  | None \<Rightarrow> body))
      in case attempt of
           Inr doc \<Rightarrow> Inr (Some doc)
         | Inl (HTTPError status) \<Rightarrow> if status = 404 then Inr None else Inl (HTTPError status)
         | Inl e \<Rightarrow> Inl e)"

definition word_exists :: "(string \<Rightarrow> http_result) \<Rightarrow> string \<Rightarrow> exn + bool" where
  "word_exists web word =
     (case fetch_page web word of
        Inr None \<Rightarrow> Inr False
      | Inr (Some doc) \<Rightarrow> (let videos = find_all ''video'' doc in Inr (length videos > 0))
      | Inl e \<Rightarrow> Inr False)"

text \<open>The loop of \<open>get_video_urls\<close> over the source elements.\<close>

fun collect_urls :: "node list \<Rightarrow> string list \<Rightarrow> string list" where
  "collect_urls [] video_urls = video_urls"
| "collect_urls (source # sources) video_urls =
     (case get_attr source ''src'' of
        Some src \<Rightarrow>
          if src \<noteq> [] \<and> suffix ''.mp4'' src
          then collect_urls sources (video_urls @ [src])
          else collect_urls sources video_urls
      | None \<Rightarrow> collect_urls sources video_urls)"

definition extract_urls :: "soup \<Rightarrow> string list" where
  "extract_urls doc = collect_urls (find_all ''source'' doc) []"

definition get_video_urls :: "(string \<Rightarrow> http_result) \<Rightarrow> string \<Rightarrow> exn + string list" where
  "get_video_urls web word =
     (case fetch_page web word of
        Inl e \<Rightarrow> Inl e
      | Inr None \<Rightarrow> Inr []
      | Inr (Some doc) \<Rightarrow> Inr (extract_urls doc))"

section \<open>The cache directory and the network\<close>

text \<open>
  The state the downloader works on: the entries of the cache directory in listing
  order, each with its bytes; the entries whose \<open>unlink\<close> raises (files the process
  may not delete); and the URLs requested from the network so far. An entry is a file,
  identified by its path relative to the cache directory as the program wrote it: a
  plain file name for a file of the directory itself, a name with path separators for a
  file in a subdirectory. Two different paths are taken to name two different files:
  the state does not follow links, and it does not resolve a \<open>..\<close> component. An
  absolute file name lies outside the cache directory.
\<close>

record world =
  cache_dir :: string
  files :: "(string \<times> string) list"
  locked :: "string list"
  requests :: "string list"

definition exists :: "world \<Rightarrow> string \<Rightarrow> bool" where
  "exists w name = (name \<in> fst ` set (files w))"

definition write_file :: "world \<Rightarrow> string \<Rightarrow> string \<Rightarrow> world" where
  "write_file w name bytes = w\<lparr>files := AList.update name bytes (files w)\<rparr>"

definition unlink :: "world \<Rightarrow> string \<Rightarrow> exn + world" where
  "unlink w name =
     (if \<not> exists w name \<or> name \<in> set (locked w) then Inl OSError
      else Inr (w\<lparr>files := AList.delete name (files w)\<rparr>))"

text \<open>
  How one transfer goes, as the network and the file system decide: the request raises
  before the destination is opened; opening the destination raises; the destination is
  opened (created or truncated), the chunks listed are received and then an exception is
  raised; or all chunks arrive.
\<close>

datatype transfer =
    Get_raises exn
  | Open_raises exn
  | Stream_raises "string list" exn
  | Complete "string list"

section \<open>Downloader\<close>

definition get_cache_path :: "world \<Rightarrow> string \<Rightarrow> string \<Rightarrow> string" where
  "get_cache_path w word video_url = cache_dir w @ ''/'' @ get_cache_filename word video_url"

definition is_cached :: "world \<Rightarrow> string \<Rightarrow> string \<Rightarrow> bool" where
  "is_cached w word video_url = exists w (get_cache_filename word video_url)"

text \<open>The chunks written by the loop over \<open>iter_content\<close>, which skips empty ones.\<close>

definition written :: "string list \<Rightarrow> string" where
  "written chunks = concat (filter (\<lambda>chunk. chunk \<noteq> []) chunks)"

text \<open>
  The \<open>except\<close> clause of \<open>download_video\<close>: a \<open>RequestException\<close> is handled by
  removing the destination when it exists and returning \<open>None\<close>; any other exception
  leaves the function.
\<close>

definition download_failed :: "world \<Rightarrow> string \<Rightarrow> exn \<Rightarrow> world \<times> (exn + string option)" where
  "download_failed w name e =
     (if is_RequestException e
      then (if exists w name
            then (case unlink w name of
                    Inl e' \<Rightarrow> (w, Inl e')
                  | Inr w' \<Rightarrow> (w', Inr None))
            else (w, Inr None))
      else (w, Inl e))"

definition download_video ::
  "(nat \<Rightarrow> string \<Rightarrow> transfer) \<Rightarrow> world \<Rightarrow> string \<Rightarrow> string \<Rightarrow> bool \<Rightarrow> world \<times> (exn + string option)"
where
  "download_video net w word video_url force =
     (let name = get_cache_filename word video_url;
          cache_path = get_cache_path w word video_url
      in if exists w name \<and> \<not> force then (w, Inr (Some cache_path))
         else
           (let w1 = w\<lparr>requests := requests w @ [video_url]\<rparr>
            in case net (length (requests w)) video_url of
                 Get_raises e \<Rightarrow> download_failed w1 name e
               | Open_raises e \<Rightarrow> download_failed w1 name e
               | Stream_raises chunks e \<Rightarrow>
                   download_failed (write_file w1 name (written chunks)) name e
               | Complete chunks \<Rightarrow>
                   (write_file w1 name (written chunks), Inr (Some cache_path))))"

text \<open>The loop of \<open>download_all_videos\<close>; an exception of \<open>download_video\<close> ends it.\<close>

fun download_loop ::
  "(nat \<Rightarrow> string \<Rightarrow> transfer) \<Rightarrow> world \<Rightarrow> string \<Rightarrow> string list \<Rightarrow> bool \<Rightarrow> string list
     \<Rightarrow> world \<times> (exn + string list)"
where
  "download_loop net w word [] force cached_paths = (w, Inr cached_paths)"
| "download_loop net w word (video_url # video_urls) force cached_paths =
     (case download_video net w word video_url force of
        (w', Inl e) \<Rightarrow> (w', Inl e)
      | (w', Inr None) \<Rightarrow> download_loop net w' word video_urls force cached_paths
      | (w', Inr (Some cache_path)) \<Rightarrow>
          if cache_path \<noteq> []
          then download_loop net w' word video_urls force (cached_paths @ [cache_path])
          else download_loop net w' word video_urls force cached_paths)"

definition download_all_videos ::
  "(nat \<Rightarrow> string \<Rightarrow> transfer) \<Rightarrow> world \<Rightarrow> string \<Rightarrow> string list \<Rightarrow> bool \<Rightarrow> world \<times> (exn + string list)"
where
  "download_all_videos net w word video_urls force = download_loop net w word video_urls force []"

section \<open>Glob patterns\<close>

text \<open>
  \<open>fnmatch.translate\<close> reads one component of a pattern: \<open>*\<close> stands for any
  string, \<open>?\<close> for any character, \<open>[seq]\<close> for one character of \<open>seq\<close> and
  \<open>[!seq]\<close> for one character not in it; a \<open>[\<close> that no \<open>]\<close> closes is an ordinary
  character, and a \<open>]\<close> right after \<open>[\<close> or \<open>[!\<close> belongs to the class. Matching is
  case-sensitive, as it is on POSIX systems.
  A class whose body holds a \<open>-\<close> takes the branch of \<open>fnmatch.translate\<close> for ranges;
  that branch is not modelled (the body is read character by character), and no pattern
  of this program reaches it, since \<open>safe_word\<close> has no \<open>-\<close> left.
\<close>

datatype glob_item = Star | Any_char | Char_class bool string | Literal char

text \<open>
  The body of the class that starts right after a \<open>[\<close>; \<open>None\<close> when no \<open>]\<close> closes
  it.
\<close>

definition class_body :: "string \<Rightarrow> string option" where
  "class_body pat =
     (let j0 = (if pat \<noteq> [] \<and> hd pat = CHR ''!'' then 1 else 0);
          j1 = (if j0 < length pat \<and> pat ! j0 = CHR '']'' then j0 + 1 else j0);
          body = takeWhile (\<lambda>c. c \<noteq> CHR '']'') (drop j1 pat);
          j = j1 + length body
      in if j \<ge> length pat then None else Some (take j pat))"

definition class_item :: "string \<Rightarrow> glob_item" where
  "class_item stuff =
     (if stuff = [] then Char_class False []
      else if stuff = ''!'' then Any_char
      else if hd stuff = CHR ''!'' then Char_class True (tl stuff)
      else Char_class False stuff)"

function translate :: "string \<Rightarrow> glob_item list" where
  "translate [] = []"
| "translate (c # pat) =
     (if c = CHR ''*'' then Star # translate (dropWhile (\<lambda>c. c = CHR ''*'') pat)
      else if c = CHR ''?'' then Any_char # translate pat
      else if c = CHR ''[''
      then (case class_body pat of
              None \<Rightarrow> Literal CHR ''['' # translate pat
            | Some stuff \<Rightarrow> class_item stuff # translate (drop (length stuff + 1) pat))
      else Literal c # translate pat)"
  by pat_completeness auto
termination
  by (relation "measure length") (auto simp: less_Suc_eq_le length_dropWhile_le)

fun matches :: "glob_item list \<Rightarrow> string \<Rightarrow> bool" where
  "matches [] s = (s = [])"
| "matches (Star # items) [] = matches items []"
| "matches (Star # items) (x # s) = (matches items (x # s) \<or> matches (Star # items) s)"
| "matches (Any_char # items) [] = False"
| "matches (Any_char # items) (x # s) = matches items s"
| "matches (Char_class neg cs # items) [] = False"
| "matches (Char_class neg cs # items) (x # s) = ((x \<in> set cs) \<noteq> neg \<and> matches items s)"
| "matches (Literal c # items) [] = False"
| "matches (Literal c # items) (x # s) = (x = c \<and> matches items s)"

definition fnmatch :: "string \<Rightarrow> string \<Rightarrow> bool" where
  "fnmatch name pat = matches (translate pat) name"

text \<open>
  \<open>Path.glob\<close> of Python 3.11 and 3.12. The pattern is cut at the path separators,
  empty components and \<open>.\<close> components are dropped, and a file is selected when its
  path matches component by component: a component with one of \<open>*\<close>, \<open>?\<close>, \<open>[\<close>
  is matched by \<open>fnmatch\<close> against the names a directory lists (never \<open>..\<close>), any
  other component must be the name itself, and a component \<open>**\<close> stands for any
  chain of directories, the empty one included. Every component but the last one has to
  match a directory. The call raises for an empty pattern, for a pattern that starts
  with a path separator, for a pattern without any component, and for a component
  that holds \<open>**\<close> next to other characters. Only files are listed: a directory
  that matches is left out, \<open>unlink\<close> fails on it and \<open>clear_cache\<close> passes it
  over.
\<close>

definition split_path :: "string \<Rightarrow> string list" where
  "split_path s =
     foldr (\<lambda>c parts. if c = CHR ''/'' then [] # parts else (c # hd parts) # tl parts) s [[]]"

definition parse_parts :: "string \<Rightarrow> string list" where
  "parse_parts s = filter (\<lambda>part. part \<noteq> [] \<and> part \<noteq> ''.'') (split_path s)"

text \<open>\<open>'**' in pat\<close>\<close>

fun has_double_star :: "string \<Rightarrow> bool" where
  "has_double_star (a # b # s) = ((a = CHR ''*'' \<and> b = CHR ''*'') \<or> has_double_star (b # s))"
| "has_double_star [a] = False"
| "has_double_star [] = False"

definition is_wildcard_pattern :: "string \<Rightarrow> bool" where
  "is_wildcard_pattern pat = (CHR ''*'' \<in> set pat \<or> CHR ''?'' \<in> set pat \<or> CHR ''['' \<in> set pat)"

definition component_match :: "string \<Rightarrow> string \<Rightarrow> bool" where
  "component_match pat name =
     (if is_wildcard_pattern pat then name \<noteq> ''..'' \<and> fnmatch name pat else name = pat)"

fun match_parts :: "string list \<Rightarrow> string list \<Rightarrow> bool" where
  "match_parts [] names = (names = [])"
| "match_parts (pat # pats) [] = (pat = ''**'' \<and> match_parts pats [])"
| "match_parts (pat # pats) (name # names) =
     (if pat = ''**''
      then match_parts pats (name # names) \<or>
           (names \<noteq> [] \<and> name \<noteq> ''..'' \<and> match_parts (pat # pats) names)
      else component_match pat name \<and> (pats = [] \<or> names \<noteq> []) \<and> match_parts pats names)"

text \<open>An entry of the state that lies under the cache directory.\<close>

definition is_entry :: "string \<Rightarrow> bool" where
  "is_entry name = (parse_parts name \<noteq> [] \<and> hd name \<noteq> CHR ''/'')"

text \<open>
  \<open>list(self.cache_dir.glob(pattern))\<close>: the exception raised, or the matching entries
  in listing order. A pattern that ends in a path separator selects directories only,
  hence no file.
\<close>

definition glob :: "world \<Rightarrow> string \<Rightarrow> exn + string list" where
  "glob w pattern =
     (if pattern = [] then Inl ValueError
      else if hd pattern = CHR ''/'' then Inl NotImplementedError
      else
        (let pattern_parts = parse_parts pattern
         in if pattern_parts = []
            then Inl (if last pattern = CHR ''/'' then AttributeError else IndexError)
            else if list_ex (\<lambda>pat. pat \<noteq> ''**'' \<and> has_double_star pat) pattern_parts
            then Inl ValueError
            else if last pattern = CHR ''/'' then Inr []
            else Inr (filter (\<lambda>name. is_entry name \<and> match_parts pattern_parts (parse_parts name))
                        (map fst (files w)))))"

section \<open>Cache store\<close>

definition str_path :: "world \<Rightarrow> string \<Rightarrow> string" where
  "str_path w name = cache_dir w @ ''/'' @ name"

definition get_cached_videos :: "world \<Rightarrow> string \<Rightarrow> exn + string list" where
  "get_cached_videos w word =
     (let safe_word = safe_word word;
          pattern = safe_word @ ''_*.mp4''
      in case glob w pattern of
           Inl e \<Rightarrow> Inl e
         | Inr cached_videos \<Rightarrow> Inr (map (str_path w) cached_videos))"

definition list_all_cached :: "world \<Rightarrow> exn + string list" where
  "list_all_cached w =
     (case glob w ''*.mp4'' of
        Inl e \<Rightarrow> Inl e
      | Inr cached_videos \<Rightarrow> Inr (map (str_path w) cached_videos))"

text \<open>
  The files \<open>clear_cache\<close> sets out to delete. The argument is \<open>None\<close> or a word; the test
  \<open>if word:\<close> sends the empty word the way of \<open>None\<close>.
\<close>

definition files_to_delete :: "world \<Rightarrow> string option \<Rightarrow> exn + string list" where
  "files_to_delete w word =
     (case word of
        None \<Rightarrow> glob w ''*.mp4''
      | Some wd \<Rightarrow>
          if wd \<noteq> [] then glob w (safe_word wd @ ''_*.mp4'')
          else glob w ''*.mp4'')"

text \<open>The deletion loop of \<open>clear_cache\<close>: a failing \<open>unlink\<close> is logged and passed over.\<close>

fun delete_loop :: "world \<Rightarrow> string list \<Rightarrow> nat \<Rightarrow> world \<times> nat" where
  "delete_loop w [] count = (w, count)"
| "delete_loop w (file_path # file_paths) count =
     (case unlink w file_path of
        Inr w' \<Rightarrow> delete_loop w' file_paths (count + 1)
      | Inl e \<Rightarrow> delete_loop w file_paths count)"

text \<open>An exception of \<open>glob\<close> is raised before the loop and leaves \<open>clear_cache\<close>.\<close>

definition clear_cache :: "world \<Rightarrow> string option \<Rightarrow> world \<times> (exn + nat)" where
  "clear_cache w word =
     (case files_to_delete w word of
        Inl e \<Rightarrow> (w, Inl e)
      | Inr file_paths \<Rightarrow>
          (case delete_loop w file_paths 0 of (w', count) \<Rightarrow> (w', Inr count)))"

section \<open>Sample documents, sites and networks\<close>

definition example_doc :: soup where
  "example_doc =
     [Element ''html'' []
        [Element ''video'' [(''id'', ''v1'')]
           [Element ''source'' [(''src'', ''a.mp4''), (''type'', ''video/mp4'')] []],
         Text ''hello'',
         Element ''video'' []
           [Element ''source'' [(''src'', ''b.webm'')] [],
            Element ''source'' [(''src'', ''b.mp4'')] []],
         Element ''video'' []
           [Element ''source'' [(''src'', ''a.mp4'')] [],
            Element ''source'' [(''type'', ''video/mp4'')] []]]]"

definition example_site :: "string \<Rightarrow> http_result" where
  "example_site url = Response 200 (Inr example_doc)"

definition video_without_mp4 :: soup where
  "video_without_mp4 =
     [Element ''video'' [(''id'', ''v1'')] [Element ''source'' [(''src'', ''a.webm'')] []]]"

definition site_without_mp4 :: "string \<Rightarrow> http_result" where
  "site_without_mp4 url = Response 200 (Inr video_without_mp4)"

definition site_not_found :: "string \<Rightarrow> http_result" where
  "site_not_found url = Response 404 (Inl ParserError)"

definition site_down :: "string \<Rightarrow> http_result" where
  "site_down url = No_response RequestException"

text \<open>A transfer that ends in an exception the downloader handles.\<close>

fun transport_failure :: "transfer \<Rightarrow> bool" where
  "transport_failure (Get_raises e) = is_RequestException e"
| "transport_failure (Open_raises e) = is_RequestException e"
| "transport_failure (Stream_raises chunks e) = is_RequestException e"
| "transport_failure (Complete chunks) = False"

definition empty_cache :: world where
  "empty_cache = \<lparr>cache_dir = ''cache'', files = [], locked = [], requests = []\<rparr>"

definition disk_full :: "nat \<Rightarrow> string \<Rightarrow> transfer" where
  "disk_full n url = Stream_raises [''partial''] OSError"

definition connection_lost :: "nat \<Rightarrow> string \<Rightarrow> transfer" where
  "connection_lost n url = Stream_raises [''partial''] RequestException"

section \<open>Auxiliary notions for the scraper\<close>

text \<open>
  An element with a given property occurs in a tree: the root is such an element, or one
  occurs in a subtree. The property is one of the tag name and the attributes.
\<close>

fun holds_element :: "(string \<Rightarrow> (string \<times> string) list \<Rightarrow> bool) \<Rightarrow> node \<Rightarrow> bool" where
  "holds_element P (Text s) = False"
| "holds_element P (Element t a cs) = (P t a \<or> list_ex (holds_element P) cs)"

text \<open>A \<open>source\<close> element whose \<open>src\<close> attribute ends in \<open>.mp4\<close>.\<close>

definition mp4_source :: "string \<Rightarrow> (string \<times> string) list \<Rightarrow> bool" where
  "mp4_source t a =
     (t = ''source'' \<and> (case map_of a ''src'' of None \<Rightarrow> False | Some src \<Rightarrow> suffix ''.mp4'' src))"

text \<open>
  The source elements within video elements, in document order, as the comment in
  \<open>get_video_urls\<close> and the specification name them: the flag tells whether the node
  lies below a \<open>video\<close> element. \<open>video_source_urls\<close> are their \<open>src\<close> values that
  end in \<open>.mp4\<close>.
\<close>

fun sources_in_videos :: "bool \<Rightarrow> node \<Rightarrow> node list" where
  "sources_in_videos inside (Text s) = []"
| "sources_in_videos inside (Element t a cs) =
     (if inside \<and> t = ''source'' then [Element t a cs] else []) @
     concat (map (sources_in_videos (inside \<or> t = ''video'')) cs)"

definition video_source_urls :: "soup \<Rightarrow> string list" where
  "video_source_urls doc =
     filter (suffix ''.mp4'')
       (List.map_filter (\<lambda>source. get_attr source ''src'')
          (concat (map (sources_in_videos False) doc)))"

text \<open>A page without any video, and a page whose only \<open>source\<close> belongs to an audio player.\<close>

definition page_without_video :: soup where
  "page_without_video =
     [Element ''html'' []
        [Element ''body'' [] [Element ''p'' [(''class'', ''lead'')] [Text ''No sign found'']]]]"

definition site_without_video :: "string \<Rightarrow> http_result" where
  "site_without_video url = Response 200 (Inr page_without_video)"

definition audio_page :: soup where
  "audio_page =
     [Element ''html'' []
        [Element ''body'' []
           [Element ''audio'' [(''controls'', [])]
              [Element ''source'' [(''src'', ''song.mp4''), (''type'', ''audio/mp4'')] []]]]]"

definition audio_site :: "string \<Rightarrow> http_result" where
  "audio_site url = Response 200 (Inr audio_page)"

section \<open>Auxiliary notions for the cache file name\<close>

text \<open>
  An upper-case letter among the code points U+0000 to U+00FF: \<open>A\<close>..\<open>Z\<close> and the
  Latin-1 capitals.
\<close>

definition is_upper :: "char \<Rightarrow> bool" where
  "is_upper c =
     ((65 \<le> (of_char c :: nat) \<and> (of_char c :: nat) \<le> 90) \<or>
      (192 \<le> (of_char c :: nat) \<and> (of_char c :: nat) \<le> 222 \<and> (of_char c :: nat) \<noteq> 215))"

section \<open>Sample caches and the trace of a batch\<close>

definition network_down :: "nat \<Rightarrow> string \<Rightarrow> transfer" where
  "network_down n url = Get_raises RequestException"

definition network_up :: "nat \<Rightarrow> string \<Rightarrow> transfer" where
  "network_up n url = Complete [''video '', [], ''bytes'']"

definition cached_hello :: world where
  "cached_hello =
     \<lparr>cache_dir = ''cache'', files = [(''hello_f9177317.mp4'', ''video bytes'')], locked = [],
      requests = []\<rparr>"

definition downloaded_hello :: world where
  "downloaded_hello =
     \<lparr>cache_dir = ''cache'', files = [(''hello_f9177317.mp4'', ''video bytes'')], locked = [],
      requests = [''https://example.com/a.mp4'']\<rparr>"

text \<open>The results of the calls of \<open>download_video\<close> that the loop makes, in order.\<close>

fun download_results ::
  "(nat \<Rightarrow> string \<Rightarrow> transfer) \<Rightarrow> world \<Rightarrow> string \<Rightarrow> string list \<Rightarrow> bool
     \<Rightarrow> (exn + string option) list"
where
  "download_results net w word [] force = []"
| "download_results net w word (video_url # video_urls) force =
     (case download_video net w word video_url force of
        (w', Inl e) \<Rightarrow> [Inl e]
      | (w', Inr r) \<Rightarrow> Inr r # download_results net w' word video_urls force)"

fun successes :: "(exn + string option) list \<Rightarrow> string list" where
  "successes [] = []"
| "successes (Inr (Some p) # rs) = p # successes rs"
| "successes (r # rs) = successes rs"

fun returned :: "exn + string option \<Rightarrow> bool" where
  "returned (Inr r) = True"
| "returned (Inl e) = False"

definition flaky_network :: "nat \<Rightarrow> string \<Rightarrow> transfer" where
  "flaky_network n url = (if n = 0 then Get_raises RequestException else Complete [''video bytes''])"

definition read_only_disk :: "nat \<Rightarrow> string \<Rightarrow> transfer" where
  "read_only_disk n url = Open_raises OSError"

section \<open>Auxiliary notions for the cache store\<close>

text \<open>A string without the special characters of a glob pattern.\<close>

definition plain :: "string \<Rightarrow> bool" where
  "plain s = (CHR ''*'' \<notin> set s \<and> CHR ''?'' \<notin> set s \<and> CHR ''['' \<notin> set s)"

text \<open>An entry that \<open>unlink\<close> removes.\<close>

definition deletable :: "world \<Rightarrow> string \<Rightarrow> bool" where
  "deletable w name = (exists w name \<and> name \<notin> set (locked w))"

text \<open>
  The file name of an entry that lies in the cache directory itself; \<open>None\<close> for an
  entry in a subdirectory or outside the directory.
\<close>

definition entry_name :: "string \<Rightarrow> string option" where
  "entry_name name =
     (if hd name = CHR ''/'' then None
      else case parse_parts name of [file_name] \<Rightarrow> Some file_name | _ \<Rightarrow> None)"

text \<open>
  The files a call of \<open>clear_cache\<close> is meant for, in the words of the specification:
  the \<open>.mp4\<close> files of the cache directory, all of them when no word is given (or the
  empty word, which \<open>if word:\<close> takes for none), and with a word those whose names begin
  with the prefix of the word, its file-name form and an underscore.
\<close>

definition selected :: "string option \<Rightarrow> string \<Rightarrow> bool" where
  "selected word name =
     (case entry_name name of
        None \<Rightarrow> False
      | Some file_name \<Rightarrow>
          (case word of
             None \<Rightarrow> suffix ''.mp4'' file_name
           | Some wd \<Rightarrow>
               if wd = [] then suffix ''.mp4'' file_name
               else prefix (safe_word wd @ ''_'') file_name \<and> suffix ''.mp4'' file_name))"

section \<open>Sample cache directories\<close>

definition two_words :: "string \<Rightarrow> string \<Rightarrow> string \<Rightarrow> string \<Rightarrow> world" where
  "two_words u1 b1 u2 b2 =
     \<lparr>cache_dir = ''cache'',
      files = [(get_cache_filename ''hello'' u1, b1), (get_cache_filename ''world'' u2, b2)],
      locked = [], requests = []\<rparr>"

definition only_world :: world where
  "only_world =
     \<lparr>cache_dir = ''cache'', files = [(''world_270c1b08.mp4'', ''video bytes'')], locked = [],
      requests = []\<rparr>"

text \<open>
  A cache with files of two words, one of them a file that cannot be deleted, a file that
  is no video and a file in a subdirectory.
\<close>

definition mixed_cache :: world where
  "mixed_cache =
     \<lparr>cache_dir = ''cache'',
      files = [(''hello_f9177317.mp4'', ''a''), (''world_270c1b08.mp4'', ''b''),
               (''hello_afb73dc6.mp4'', ''c''), (''notes.txt'', ''d''),
               (''old/hello_f9177317.mp4'', ''e'')],
      locked = [''hello_f9177317.mp4''], requests = []\<rparr>"

definition bracket_cache :: world where
  "bracket_cache =
     \<lparr>cache_dir = ''cache'', files = [(''[a]_b_f9177317.mp4'', ''video bytes'')], locked = [],
      requests = []\<rparr>"

definition phrase_cache :: world where
  "phrase_cache =
     \<lparr>cache_dir = ''cache'',
      files = [(''hello_f9177317.mp4'', ''a''), (''hello_world_f9177317.mp4'', ''b'')],
      locked = [], requests = []\<rparr>"

definition star_cache :: world where
  "star_cache =
     \<lparr>cache_dir = ''cache'', files = [(''**_x_f9177317.mp4'', ''video bytes'')], locked = [],
      requests = []\<rparr>"

section \<open>Properties of the cache file name\<close>

lemma isspace_lower_char: "isspace (lower_char c) = isspace c"
proof -
  have "of_char (char_of (of_char c + 32 :: nat)) = (of_char c + 32 :: nat)"
    if "(of_char c :: nat) \<le> 222"
    using that by (simp add: of_char_of)
  then show ?thesis
    by (auto simp: isspace_def lower_char_def Let_def)
qed

lemma strip_lower: "strip (lower s) = lower (strip s)"
proof -
  have comp: "isspace \<circ> lower_char = isspace"
    by (rule ext) (simp add: isspace_lower_char)
  show ?thesis
    by (simp add: strip_def lower_def dropWhile_map rev_map comp)
qed

lemma replace_replace_hyphen:
  "replace CHR ''-'' CHR ''_'' (replace CHR '' '' CHR ''-'' s) =
   replace CHR ''-'' CHR ''_'' (replace CHR '' '' CHR ''_'' s)"
  by (simp add: replace_def)

lemma safe_word_normalize:
  "strip word = word \<Longrightarrow> safe_word word = replace CHR ''-'' CHR ''_'' (normalize_word word)"
  by (simp add: safe_word_def normalize_word_def strip_lower replace_replace_hyphen)

text \<open>
  C1, as stated: two words that normalize to the same string have the same cache file
  name for every URL. It fails: \<open>_normalize_word\<close> strips white space from both ends
  of the word, the file name keeps it as an underscore. The word \<open>hello\<close> with and without
  a leading blank is one word for the scraper and two for the cache.
\<close>

theorem normalize_not_cache_key_counterexample:
  "normalize_word '' hello'' = normalize_word ''hello'' \<and>
   get_cache_filename '' hello'' ''https://example.com/a.mp4'' \<noteq>
   get_cache_filename ''hello'' ''https://example.com/a.mp4''"
proof -
  have 1: "normalize_word '' hello'' = normalize_word ''hello''" by code_simp
  have 2: "safe_word '' hello'' = ''_hello''" by code_simp
  have 3: "safe_word ''hello'' = ''hello''" by code_simp
  show ?thesis using 1 by (simp add: get_cache_filename_def 2 3)
qed

text \<open>
  C1, amended: two words without white space at either end (words that \<open>strip\<close> leaves
  as they are) that normalize to the same string have the same cache file name for
  every URL.
\<close>

theorem same_normal_form_same_cache_filename:
  assumes "normalize_word w1 = normalize_word w2"
    and "strip w1 = w1" and "strip w2 = w2"
  shows "get_cache_filename w1 u = get_cache_filename w2 u"
  using assms by (simp add: get_cache_filename_def safe_word_normalize)

theorem same_normal_form_same_cache_filename_witness:
  "normalize_word ''Hello World'' = normalize_word ''hello-world'' \<and>
   strip ''Hello World'' = ''Hello World'' \<and> strip ''hello-world'' = ''hello-world'' \<and>
   get_cache_filename ''Hello World'' ''https://example.com/a.mp4'' =
   get_cache_filename ''hello-world'' ''https://example.com/a.mp4''"
proof -
  have 1: "normalize_word ''Hello World'' = normalize_word ''hello-world''" by code_simp
  have 2: "strip ''Hello World'' = ''Hello World''" by code_simp
  have 3: "strip ''hello-world'' = ''hello-world''" by code_simp
  from same_normal_form_same_cache_filename [OF 1 2 3] 1 2 3 show ?thesis by blast
qed

lemma length_word_bytes: "length (word_bytes w) = 4"
  by (simp add: word_bytes_def le_bytes_def)

lemma length_md5_digest: "length (md5_digest m) = 16"
  by (simp add: md5_digest_def length_word_bytes split: prod.splits)

lemma length_concat_hex: "length (concat (map hex_byte bs)) = 2 * length bs"
  by (induction bs) (simp_all add: hex_byte_def)

lemma length_md5_hexdigest: "length (md5_hexdigest m) = 32"
  by (simp add: md5_hexdigest_def length_concat_hex length_md5_digest)

lemma is_hex_hex_digit: "n < 16 \<Longrightarrow> is_hex (hex_digit n)"
  unfolding is_hex_def hex_digit_def by (rule nth_mem) simp

lemma is_hex_hex_byte: "list_all is_hex (hex_byte b)"
proof -
  have "unat b < 2 ^ 8" using unsigned_less[of b] by simp
  then have "unat b < 16 * 16" by simp
  then have 1: "unat b div 16 < 16" by (rule less_mult_imp_div_less)
  have 2: "unat b mod 16 < 16" by simp
  show ?thesis
    unfolding hex_byte_def using is_hex_hex_digit[OF 1] is_hex_hex_digit[OF 2] by simp
qed

lemma hex_md5_hexdigest: "list_all is_hex (md5_hexdigest m)"
proof -
  have "list_all is_hex (concat (map hex_byte bs))" for bs
    by (induction bs) (simp_all add: is_hex_hex_byte)
  then show ?thesis by (simp add: md5_hexdigest_def)
qed

lemma length_url_hash: "length (url_hash u) = 8"
  by (simp add: url_hash_def length_md5_hexdigest)

lemma hex_url_hash: "list_all is_hex (url_hash u)"
  using hex_md5_hexdigest[of "encode u"]
  by (auto simp: url_hash_def list_all_iff dest: in_set_takeD)

text \<open>The model of the digest agrees with the library on the test vector of RFC 1321.\<close>

lemma md5_example: "md5_hexdigest (encode ''abc'') = ''900150983cd24fb0d6963f7d28e17f72''"
  by code_simp

lemma lower_of_upper:
  assumes "is_upper d"
  shows "(of_char (char_of (of_char d + 32 :: nat) :: char) :: nat) = of_char d + 32"
    and "\<not> is_upper (char_of (of_char d + 32 :: nat))"
    and "char_of (of_char d + 32 :: nat) \<noteq> CHR '' ''"
    and "char_of (of_char d + 32 :: nat) \<noteq> CHR ''-''"
proof -
  let ?e = "char_of (of_char d + 32 :: nat) :: char"
  from assms have b: "(of_char d :: nat) + 32 < 256" and g: "65 \<le> (of_char d :: nat)"
    by (auto simp: is_upper_def)
  from b show v: "(of_char ?e :: nat) = of_char d + 32" by (simp add: of_char_of)
  from v assms show "\<not> is_upper ?e" by (auto simp: is_upper_def)
  show "?e \<noteq> CHR '' ''"
  proof
    assume "?e = CHR '' ''"
    then have "(of_char ?e :: nat) = of_char CHR '' ''" by (rule arg_cong)
    with v g show False by simp
  qed
  show "?e \<noteq> CHR ''-''"
  proof
    assume "?e = CHR ''-''"
    then have "(of_char ?e :: nat) = of_char CHR ''-''" by (rule arg_cong)
    with v g show False by simp
  qed
qed

lemma safe_word_nth:
  assumes "i < length word"
  shows "safe_word word ! i =
         (if word ! i = CHR '' '' \<or> word ! i = CHR ''-'' then CHR ''_''
          else if is_upper (word ! i) then char_of (of_char (word ! i) + 32 :: nat)
          else word ! i)"
proof -
  let ?c = "word ! i"
  have up: "\<not> is_upper CHR '' ''" "\<not> is_upper CHR ''-''" by (simp_all add: is_upper_def)
  have l: "lower_char ?c = (if is_upper ?c then char_of (of_char ?c + 32 :: nat) else ?c)"
    by (simp add: lower_char_def is_upper_def Let_def)
  have "safe_word word ! i =
        (if lower_char ?c = CHR '' '' \<or> lower_char ?c = CHR ''-'' then CHR ''_'' else lower_char ?c)"
    using assms by (auto simp: safe_word_def replace_def lower_def)
  then show ?thesis using l lower_of_upper(3,4) [of ?c] up by (auto split: if_splits)
qed

lemma safe_word_no_upper:
  assumes "c \<in> set (safe_word word)"
  shows "\<not> is_upper c \<and> c \<noteq> CHR '' '' \<and> c \<noteq> CHR ''-''"
proof -
  from assms obtain i where i: "i < length word" and c: "c = safe_word word ! i"
    by (auto simp: in_set_conv_nth safe_word_def replace_def lower_def)
  have under: "\<not> is_upper CHR ''_''" by (simp add: is_upper_def)
  show ?thesis
    unfolding c safe_word_nth [OF i] using under lower_of_upper(2,3,4) [of "word ! i"] by auto
qed

lemma length_safe_word: "length (safe_word word) = length word"
  by (simp add: safe_word_def replace_def lower_def)

text \<open>
  The 8 digits of three URLs, the last one with a character outside ASCII; they are the
  ones \<open>hashlib\<close> gives.
\<close>

lemma example_hashes:
  "url_hash ''https://example.com/a.mp4'' = ''f9177317''"
  "url_hash ''https://example.com/b.mp4'' = ''afb73dc6''"
  "url_hash (''https://example.com/caf'' @ [CHR 0xE9] @ ''.mp4'') = ''f8b3083e''"
  by code_simp+

text \<open>
  C7: the cache file name is a function of the word and the URL alone: nothing else
  enters its computation, no seed and no state, so equal inputs give the same name in
  every run. The name is 13 characters longer than the word. Its first characters follow
  the word one by one: a blank or a hyphen has become an underscore, an upper-case letter
  the letter 32 code points further (its lower-case form), any other character is kept,
  so that no upper-case letter, blank or hyphen is left. Then come an underscore, the
  first 8 characters of the hexadecimal MD5 digest of the UTF-8 bytes of the URL, which
  are 8 hexadecimal digits, and \<open>.mp4\<close>. For one word, two URLs get the same file name
  exactly when these 8 digits coincide. The digest is the one of RFC 1321 (its test
  vector \<open>abc\<close>), and for three sample inputs the name is the one the program computes:
  two URLs that differ in one letter get different names.
\<close>

theorem cache_filename_deterministic:
  "length (get_cache_filename word url) = length word + 13 \<and>
   (\<forall>i < length word.
      (word ! i = CHR '' '' \<or> word ! i = CHR ''-'' \<longrightarrow>
         get_cache_filename word url ! i = CHR ''_'') \<and>
      (is_upper (word ! i) \<longrightarrow>
         (of_char (get_cache_filename word url ! i) :: nat) = of_char (word ! i) + 32) \<and>
      (\<not> is_upper (word ! i) \<and> word ! i \<noteq> CHR '' '' \<and> word ! i \<noteq> CHR ''-'' \<longrightarrow>
         get_cache_filename word url ! i = word ! i)) \<and>
   (\<forall>c \<in> set (take (length word) (get_cache_filename word url)).
      \<not> is_upper c \<and> c \<noteq> CHR '' '' \<and> c \<noteq> CHR ''-'') \<and>
   drop (length word) (get_cache_filename word url) =
     ''_'' @ take 8 (md5_hexdigest (encode url)) @ ''.mp4'' \<and>
   length (take 8 (md5_hexdigest (encode url))) = 8 \<and>
   list_all is_hex (take 8 (md5_hexdigest (encode url))) \<and>
   ((get_cache_filename word url = get_cache_filename word url') =
      (take 8 (md5_hexdigest (encode url)) = take 8 (md5_hexdigest (encode url')))) \<and>
   md5_hexdigest (encode ''abc'') = ''900150983cd24fb0d6963f7d28e17f72'' \<and>
   get_cache_filename ''Hello World-X'' ''https://example.com/a.mp4'' =
     ''hello_world_x_f9177317.mp4'' \<and>
   get_cache_filename ''Hello World-X'' ''https://example.com/b.mp4'' =
     ''hello_world_x_afb73dc6.mp4'' \<and>
   get_cache_filename ''caf'' (''https://example.com/caf'' @ [CHR 0xE9] @ ''.mp4'') =
     ''caf_f8b3083e.mp4''"
proof -
  let ?name = "get_cache_filename word url"
  have len: "length ?name = length word + 13"
    by (simp add: get_cache_filename_def length_safe_word length_url_hash)
  have nth: "?name ! i = safe_word word ! i" if "i < length word" for i
    using that by (simp add: get_cache_filename_def nth_append length_safe_word)
  have pt: "\<forall>i < length word.
      (word ! i = CHR '' '' \<or> word ! i = CHR ''-'' \<longrightarrow> ?name ! i = CHR ''_'') \<and>
      (is_upper (word ! i) \<longrightarrow> (of_char (?name ! i) :: nat) = of_char (word ! i) + 32) \<and>
      (\<not> is_upper (word ! i) \<and> word ! i \<noteq> CHR '' '' \<and> word ! i \<noteq> CHR ''-'' \<longrightarrow>
         ?name ! i = word ! i)"
  proof (intro allI impI)
    fix i assume i: "i < length word"
    have up: "\<not> is_upper CHR '' ''" "\<not> is_upper CHR ''-''" by (simp_all add: is_upper_def)
    show "(word ! i = CHR '' '' \<or> word ! i = CHR ''-'' \<longrightarrow> ?name ! i = CHR ''_'') \<and>
      (is_upper (word ! i) \<longrightarrow> (of_char (?name ! i) :: nat) = of_char (word ! i) + 32) \<and>
      (\<not> is_upper (word ! i) \<and> word ! i \<noteq> CHR '' '' \<and> word ! i \<noteq> CHR ''-'' \<longrightarrow>
         ?name ! i = word ! i)"
      unfolding nth [OF i] safe_word_nth [OF i]
      using up lower_of_upper(1) [of "word ! i"] by auto
  qed
  have tk: "take (length word) ?name = safe_word word"
    by (simp add: get_cache_filename_def length_safe_word)
  have nu: "\<forall>c \<in> set (take (length word) ?name). \<not> is_upper c \<and> c \<noteq> CHR '' '' \<and> c \<noteq> CHR ''-''"
    unfolding tk using safe_word_no_upper by blast
  have dr: "drop (length word) ?name = ''_'' @ take 8 (md5_hexdigest (encode url)) @ ''.mp4''"
    by (simp add: get_cache_filename_def length_safe_word url_hash_def)
  have l8: "length (take 8 (md5_hexdigest (encode url))) = 8"
    using length_url_hash [of url] by (simp only: url_hash_def)
  have hx: "list_all is_hex (take 8 (md5_hexdigest (encode url)))"
    using hex_url_hash [of url] by (simp only: url_hash_def)
  have inj: "(?name = get_cache_filename word url') =
      (take 8 (md5_hexdigest (encode url)) = take 8 (md5_hexdigest (encode url')))"
    by (simp add: get_cache_filename_def url_hash_def)
  have sw: "safe_word ''Hello World-X'' = ''hello_world_x''" "safe_word ''caf'' = ''caf''"
    by code_simp+
  have e1: "get_cache_filename ''Hello World-X'' ''https://example.com/a.mp4'' =
     ''hello_world_x_f9177317.mp4''"
    by (simp add: get_cache_filename_def sw example_hashes)
  have e2: "get_cache_filename ''Hello World-X'' ''https://example.com/b.mp4'' =
     ''hello_world_x_afb73dc6.mp4''"
    by (simp add: get_cache_filename_def sw example_hashes)
  have e3: "get_cache_filename ''caf'' (''https://example.com/caf'' @ [CHR 0xE9] @ ''.mp4'') =
     ''caf_f8b3083e.mp4''"
    unfolding get_cache_filename_def sw example_hashes by simp
  show ?thesis by (intro conjI len pt nu dr l8 hx inj md5_example e1 e2 e3)
qed

theorem cache_filename_deterministic_witness:
  "(0::nat) < length ''Hello World-X'' \<and> is_upper (''Hello World-X'' ! 0) \<and>
   (of_char (get_cache_filename ''Hello World-X'' ''https://example.com/a.mp4'' ! 0) :: nat) =
     of_char CHR ''h'' \<and>
   (5::nat) < length ''Hello World-X'' \<and> ''Hello World-X'' ! 5 = CHR '' '' \<and>
   get_cache_filename ''Hello World-X'' ''https://example.com/a.mp4'' ! 5 = CHR ''_'' \<and>
   (1::nat) < length ''Hello World-X'' \<and> \<not> is_upper (''Hello World-X'' ! 1) \<and>
   get_cache_filename ''Hello World-X'' ''https://example.com/a.mp4'' ! 1 = CHR ''e'' \<and>
   CHR ''h'' \<in> set (take (length ''Hello World-X'')
                     (get_cache_filename ''Hello World-X'' ''https://example.com/a.mp4'')) \<and>
   \<not> is_upper CHR ''h''"
proof -
  note T = cache_filename_deterministic
    [of "''Hello World-X''" "''https://example.com/a.mp4''" "''https://example.com/b.mp4''"]
  note pt = T [THEN conjunct2, THEN conjunct1, rule_format]
  note nu = T [THEN conjunct2, THEN conjunct2, THEN conjunct1, rule_format]
  let ?name = "get_cache_filename ''Hello World-X'' ''https://example.com/a.mp4''"
  have l0: "(0::nat) < length ''Hello World-X''" and l5: "(5::nat) < length ''Hello World-X''"
    and l1: "(1::nat) < length ''Hello World-X''" by simp_all
  have u0: "is_upper (''Hello World-X'' ! 0)" by (simp add: is_upper_def)
  have b5: "''Hello World-X'' ! 5 = CHR '' '' \<or> ''Hello World-X'' ! 5 = CHR ''-''" by simp
  have n1: "\<not> is_upper (''Hello World-X'' ! 1) \<and> ''Hello World-X'' ! 1 \<noteq> CHR '' '' \<and>
    ''Hello World-X'' ! 1 \<noteq> CHR ''-''" by (simp add: is_upper_def)
  have "(of_char (?name ! 0) :: nat) = of_char (''Hello World-X'' ! 0) + 32"
    using pt [OF l0, THEN conjunct2, THEN conjunct1] u0 by (rule mp)
  then have r0: "(of_char (?name ! 0) :: nat) = of_char CHR ''h''" by simp
  have r5: "?name ! 5 = CHR ''_''"
    using pt [OF l5, THEN conjunct1] b5 by (rule mp)
  have "?name ! 1 = ''Hello World-X'' ! 1"
    using pt [OF l1, THEN conjunct2, THEN conjunct2] n1 by (rule mp)
  then have r1: "?name ! 1 = CHR ''e''" by simp
  note e = T [THEN conjunct2, THEN conjunct2, THEN conjunct2, THEN conjunct2, THEN conjunct2,
    THEN conjunct2, THEN conjunct2, THEN conjunct2, THEN conjunct1]
  have m: "CHR ''h'' \<in> set (take (length ''Hello World-X'') ?name)"
    unfolding e by simp
  have h: "\<not> is_upper CHR ''h''" using nu [OF m] by (rule conjunct1)
  have b5': "''Hello World-X'' ! 5 = CHR '' ''" by simp
  have n1': "\<not> is_upper (''Hello World-X'' ! 1)" using n1 by (rule conjunct1)
  show ?thesis by (intro conjI l0 u0 r0 l5 b5' r5 l1 n1' r1 m h)
qed

section \<open>Properties of the scraper\<close>

lemma collect_urls_none:
  assumes "\<forall>source \<in> set sources. \<forall>src. get_attr source ''src'' = Some src \<longrightarrow> \<not> suffix ''.mp4'' src"
  shows "collect_urls sources acc = acc"
  using assms by (induction sources arbitrary: acc) (auto split: option.splits)

lemma holds_element_elements:
  "holds_element P n =
     (\<exists>m \<in> set (elements n). case m of Element t a cs \<Rightarrow> P t a | Text s \<Rightarrow> False)"
proof (induction n rule: elements.induct)
  case (1 s)
  show ?case by simp
next
  case (2 t a cs)
  then show ?case by (auto simp: list_ex_iff)
qed

lemma find_all_nonempty:
  "(find_all n doc \<noteq> []) = list_ex (holds_element (\<lambda>t a. t = n)) doc"
proof -
  have "has_name n m = (case m of Element t a cs \<Rightarrow> t = n | Text s \<Rightarrow> False)" for m
    by (cases m) auto
  then show ?thesis
    by (auto simp: find_all_def filter_empty_conv list_ex_iff holds_element_elements)
qed

lemma no_mp4_source:
  assumes "\<not> list_ex (holds_element mp4_source) doc"
  shows "\<forall>source \<in> set (find_all ''source'' doc).
           \<forall>src. get_attr source ''src'' = Some src \<longrightarrow> \<not> suffix ''.mp4'' src"
proof (intro ballI allI impI)
  fix source src
  assume s: "source \<in> set (find_all ''source'' doc)" and g: "get_attr source ''src'' = Some src"
  from s obtain n where n: "n \<in> set doc" and m: "source \<in> set (elements n)"
    and h: "has_name ''source'' source"
    by (auto simp: find_all_def)
  from h obtain a cs where e: "source = Element ''source'' a cs" by (cases source) auto
  show "\<not> suffix ''.mp4'' src"
  proof
    assume "suffix ''.mp4'' src"
    with g e have "mp4_source ''source'' a" by (simp add: mp4_source_def)
    with m e have "holds_element mp4_source n" unfolding holds_element_elements by force
    with n assms show False by (auto simp: list_ex_iff)
  qed
qed

text \<open>
  C4: \<open>word_exists\<close> never raises, whatever the site answers at the URL of the word. It
  returns \<open>False\<close> when the request raises, when the response has status 404 or any other
  status from 400 to 599, and when the parser fails on the body. For every other response
  it returns whether the document holds a \<open>video\<close> element, at any depth. A document
  that holds a \<open>video\<close> element and no \<open>source\<close> element whose \<open>src\<close> ends in
  \<open>.mp4\<close> makes \<open>word_exists\<close> true while \<open>get_video_urls\<close> returns the empty list.
\<close>

theorem word_exists_never_raises:
  "(\<exists>found. word_exists web word = Inr found) \<and>
   (web (BASE_URL (normalize_word word)) = No_response e \<longrightarrow> word_exists web word = Inr False) \<and>
   (web (BASE_URL (normalize_word word)) = Response 404 body \<longrightarrow> word_exists web word = Inr False) \<and>
   (web (BASE_URL (normalize_word word)) = Response status body \<and> 400 \<le> status \<and> status < 600 \<longrightarrow>
      word_exists web word = Inr False) \<and>
   (web (BASE_URL (normalize_word word)) = Response status (Inl e) \<longrightarrow>
      word_exists web word = Inr False) \<and>
   (web (BASE_URL (normalize_word word)) = Response status (Inr doc) \<and>
    \<not> (400 \<le> status \<and> status < 600) \<longrightarrow>
      word_exists web word = Inr (list_ex (holds_element (\<lambda>t a. t = ''video'')) doc) \<and>
      (list_ex (holds_element (\<lambda>t a. t = ''video'')) doc \<and>
       \<not> list_ex (holds_element mp4_source) doc \<longrightarrow>
         word_exists web word = Inr True \<and> get_video_urls web word = Inr []))"
proof (intro conjI impI)
  show "\<exists>found. word_exists web word = Inr found"
    by (auto simp: word_exists_def split: sum.splits option.splits)
next
  assume "web (BASE_URL (normalize_word word)) = No_response e"
  then show "word_exists web word = Inr False"
    by (simp add: word_exists_def fetch_page_def split: exn.splits)
next
  assume "web (BASE_URL (normalize_word word)) = Response 404 body"
  then show "word_exists web word = Inr False"
    by (simp add: word_exists_def fetch_page_def raise_for_status_def)
next
  assume "web (BASE_URL (normalize_word word)) = Response status body \<and> 400 \<le> status \<and> status < 600"
  then show "word_exists web word = Inr False"
    by (simp add: word_exists_def fetch_page_def raise_for_status_def)
next
  assume "web (BASE_URL (normalize_word word)) = Response status (Inl e)"
  then show "word_exists web word = Inr False"
    by (simp add: word_exists_def fetch_page_def raise_for_status_def split: exn.splits)
next
  assume a: "web (BASE_URL (normalize_word word)) = Response status (Inr doc) \<and>
    \<not> (400 \<le> status \<and> status < 600)"
  then have f: "fetch_page web word = Inr (Some doc)"
    by (auto simp: fetch_page_def raise_for_status_def)
  then show w: "word_exists web word = Inr (list_ex (holds_element (\<lambda>t a. t = ''video'')) doc)"
    using find_all_nonempty [of "''video''" doc] by (simp add: word_exists_def)
  assume b: "list_ex (holds_element (\<lambda>t a. t = ''video'')) doc \<and>
       \<not> list_ex (holds_element mp4_source) doc"
  with w show "word_exists web word = Inr True" by simp
  from b have "collect_urls (find_all ''source'' doc) [] = []"
    by (intro collect_urls_none no_mp4_source) blast
  with f show "get_video_urls web word = Inr []"
    by (simp add: get_video_urls_def extract_urls_def)
qed

theorem word_exists_never_raises_witness:
  "word_exists site_down ''hello'' = Inr False \<and>
   word_exists site_not_found ''hello'' = Inr False \<and>
   \<not> list_ex (holds_element (\<lambda>t a. t = ''video'')) page_without_video \<and>
   word_exists site_without_video ''hello'' = Inr False \<and>
   list_ex (holds_element (\<lambda>t a. t = ''video'')) example_doc \<and>
   word_exists example_site ''hello'' = Inr True \<and>
   list_ex (holds_element (\<lambda>t a. t = ''video'')) video_without_mp4 \<and>
   \<not> list_ex (holds_element mp4_source) video_without_mp4 \<and>
   word_exists site_without_mp4 ''hello'' = Inr True \<and>
   get_video_urls site_without_mp4 ''hello'' = Inr []"
proof -
  let ?url = "BASE_URL (normalize_word ''hello'')"
  note T1 = word_exists_never_raises
    [of site_down "''hello''" RequestException "Inl ParserError" 200 "[]"]
  note T2 = word_exists_never_raises
    [of site_not_found "''hello''" ParserError "Inl ParserError" 404 "[]"]
  note T3 = word_exists_never_raises
    [of site_without_video "''hello''" ParserError "Inl ParserError" 200 page_without_video]
  note T4 = word_exists_never_raises
    [of example_site "''hello''" ParserError "Inl ParserError" 200 example_doc]
  note T5 = word_exists_never_raises
    [of site_without_mp4 "''hello''" ParserError "Inl ParserError" 200 video_without_mp4]
  have 1: "site_down ?url = No_response RequestException" by (simp add: site_down_def)
  have 2: "site_not_found ?url = Response 404 (Inl ParserError)" by (simp add: site_not_found_def)
  have 3: "site_without_video ?url = Response 200 (Inr page_without_video)"
    by (simp add: site_without_video_def)
  have 4: "example_site ?url = Response 200 (Inr example_doc)" by (simp add: example_site_def)
  have 5: "site_without_mp4 ?url = Response 200 (Inr video_without_mp4)"
    by (simp add: site_without_mp4_def)
  have s: "\<not> (400 \<le> (200::nat) \<and> (200::nat) < 600)" by simp
  have v3: "\<not> list_ex (holds_element (\<lambda>t a. t = ''video'')) page_without_video"
    by (simp add: page_without_video_def)
  have v4: "list_ex (holds_element (\<lambda>t a. t = ''video'')) example_doc"
    by (simp add: example_doc_def)
  have v5: "list_ex (holds_element (\<lambda>t a. t = ''video'')) video_without_mp4"
    by (simp add: video_without_mp4_def)
  have m5: "\<not> list_ex (holds_element mp4_source) video_without_mp4"
    by (simp add: video_without_mp4_def mp4_source_def suffix_def)
  from T1 1 have r1: "word_exists site_down ''hello'' = Inr False" by blast
  from T2 2 have r2: "word_exists site_not_found ''hello'' = Inr False" by blast
  from T3 3 s v3 have r3: "word_exists site_without_video ''hello'' = Inr False" by simp
  from T4 4 s v4 have r4: "word_exists example_site ''hello'' = Inr True" by simp
  from T5 5 s v5 m5 have r5: "word_exists site_without_mp4 ''hello'' = Inr True \<and>
      get_video_urls site_without_mp4 ''hello'' = Inr []" by blast
  from r1 r2 r3 r4 r5 v3 v4 v5 m5 show ?thesis by blast
qed

text \<open>
  C5: the claim speaks of the video source elements of the document, and the comment in
  \<open>get_video_urls\<close> of the source tags within video elements, but the loop runs over
  \<open>find_all('source')\<close>, every \<open>source\<close> element of the document. On a page whose
  only \<open>source\<close> belongs to an \<open>audio\<close> element \<open>get_video_urls\<close> returns its
  \<open>src\<close>, although the page has no \<open>video\<close> element (\<open>word_exists\<close> is false) and
  the source elements within video elements give no URL. On the sample page with three
  videos the two agree.
\<close>

theorem source_outside_video_is_extracted:
  "fetch_page audio_site ''hello'' = Inr (Some audio_page) \<and>
   get_video_urls audio_site ''hello'' = Inr [''song.mp4''] \<and>
   video_source_urls audio_page = [] \<and>
   word_exists audio_site ''hello'' = Inr False \<and>
   get_video_urls example_site ''hello'' = Inr (video_source_urls example_doc)"
proof -
  have 1: "fetch_page audio_site ''hello'' = Inr (Some audio_page)"
    by (simp add: fetch_page_def audio_site_def raise_for_status_def)
  have 2: "extract_urls audio_page = [''song.mp4'']" by code_simp
  have 3: "video_source_urls audio_page = []" by code_simp
  have 4: "find_all ''video'' audio_page = []" by code_simp
  have 5: "fetch_page example_site ''hello'' = Inr (Some example_doc)"
    by (simp add: fetch_page_def example_site_def raise_for_status_def)
  have 6: "extract_urls example_doc = video_source_urls example_doc" by code_simp
  from 1 2 have "get_video_urls audio_site ''hello'' = Inr [''song.mp4'']"
    by (simp add: get_video_urls_def)
  moreover from 1 4 have "word_exists audio_site ''hello'' = Inr False"
    by (simp add: word_exists_def)
  moreover from 5 6 have "get_video_urls example_site ''hello'' = Inr (video_source_urls example_doc)"
    by (simp add: get_video_urls_def)
  ultimately show ?thesis using 1 3 by blast
qed

section \<open>Properties of the downloader\<close>

lemma exists_write_file: "exists (write_file w name bytes) name' = (name' = name \<or> exists w name')"
  by (auto simp: exists_def write_file_def dom_update)

lemma exists_requests [simp]: "exists (w\<lparr>requests := r\<rparr>) name = exists w name"
  by (simp add: exists_def)

lemma delete_update_same: "AList.delete k (AList.update k v al) = AList.delete k al"
  by (induction al) (auto simp: AList.delete_eq)

lemma download_failed_transport:
  assumes "is_RequestException e" and "name \<notin> set (locked w)"
  shows "download_failed w name e = (w\<lparr>files := AList.delete name (files w)\<rparr>, Inr None)"
proof (cases "exists w name")
  case True
  with assms show ?thesis by (simp add: download_failed_def unlink_def)
next
  case False
  then have "AList.delete name (files w) = files w" by (simp add: exists_def)
  with False assms show ?thesis by (simp add: download_failed_def)
qed

text \<open>
  A transfer that fails with a \<open>RequestException\<close>: the request is recorded, whatever
  is at the cache path is removed, and the result is \<open>None\<close>.
\<close>

lemma download_video_transport_failure:
  assumes "transport_failure (net (length (requests w)) video_url)"
    and "force \<or> \<not> is_cached w word video_url"
    and "get_cache_filename word video_url \<notin> set (locked w)"
  shows "download_video net w word video_url force =
         (w\<lparr>requests := requests w @ [video_url],
            files := AList.delete (get_cache_filename word video_url) (files w)\<rparr>, Inr None)"
proof -
  let ?name = "get_cache_filename word video_url"
  let ?w1 = "w\<lparr>requests := requests w @ [video_url]\<rparr>"
  have go: "\<not> (exists w ?name \<and> \<not> force)"
    using assms(2) by (auto simp: is_cached_def)
  have l1: "?name \<notin> set (locked ?w1)" using assms(3) by simp
  have l2: "?name \<notin> set (locked (write_file ?w1 ?name bytes))" for bytes
    using assms(3) by (simp add: write_file_def)
  show ?thesis
  proof (cases "net (length (requests w)) video_url")
    case (Get_raises e)
    with assms(1) have "is_RequestException e" by simp
    from download_failed_transport [OF this l1] Get_raises go
    show ?thesis by (simp add: download_video_def Let_def)
  next
    case (Open_raises e)
    with assms(1) have "is_RequestException e" by simp
    from download_failed_transport [OF this l1] Open_raises go
    show ?thesis by (simp add: download_video_def Let_def)
  next
    case (Stream_raises chunks e)
    with assms(1) have "is_RequestException e" by simp
    from download_failed_transport [OF this l2 [of "written chunks"]] Stream_raises go
    show ?thesis
      by (simp add: download_video_def Let_def write_file_def delete_update_same)
  next
    case (Complete chunks)
    with assms(1) show ?thesis by simp
  qed
qed

lemma example_filename:
  "get_cache_filename ''hello'' ''https://example.com/a.mp4'' = ''hello_f9177317.mp4''"
  by code_simp

text \<open>
  C2, as stated: whatever error occurs during a download, the destination is removed and
  \<open>None\<close> is returned, never an exception. It fails: the \<open>except\<close> clause names
  \<open>requests.exceptions.RequestException\<close> only. When writing a chunk raises an
  \<open>OSError\<close> (a full disk), the exception leaves \<open>download_video\<close> and the partial
  file stays at the cache path.
\<close>

theorem download_error_escapes_counterexample:
  "download_video disk_full empty_cache ''hello'' ''https://example.com/a.mp4'' False =
     (\<lparr>cache_dir = ''cache'', files = [(''hello_f9177317.mp4'', ''partial'')], locked = [],
       requests = [''https://example.com/a.mp4'']\<rparr>, Inl OSError)"
  by (simp add: download_video_def Let_def example_filename empty_cache_def exists_def
      disk_full_def download_failed_def write_file_def written_def)

text \<open>
  C2, amended: when a download is attempted (the file is not cached, or \<open>force\<close> is
  set) and the transfer fails with a \<open>RequestException\<close>, then, the file at the cache
  path being one that can be deleted, \<open>download_video\<close> returns \<open>None\<close> without
  raising, and no file is left at the cache path.
\<close>

theorem transport_failure_cleans_up:
  assumes "transport_failure (net (length (requests w)) video_url)"
    and "force \<or> \<not> is_cached w word video_url"
    and "get_cache_filename word video_url \<notin> set (locked w)"
  shows "snd (download_video net w word video_url force) = Inr None \<and>
         \<not> is_cached (fst (download_video net w word video_url force)) word video_url"
  using download_video_transport_failure [where net = net and w = w, OF assms]
  by (simp add: is_cached_def exists_def delete_notin_dom)

theorem transport_failure_cleans_up_witness:
  "transport_failure (connection_lost (length (requests empty_cache)) ''https://example.com/a.mp4'') \<and>
   \<not> is_cached empty_cache ''hello'' ''https://example.com/a.mp4'' \<and>
   get_cache_filename ''hello'' ''https://example.com/a.mp4'' \<notin> set (locked empty_cache) \<and>
   snd (download_video connection_lost empty_cache ''hello'' ''https://example.com/a.mp4'' False) = Inr None \<and>
   \<not> is_cached (fst (download_video connection_lost empty_cache ''hello'' ''https://example.com/a.mp4'' False))
       ''hello'' ''https://example.com/a.mp4''"
proof -
  have 1: "transport_failure (connection_lost (length (requests empty_cache)) ''https://example.com/a.mp4'')"
    by (simp add: connection_lost_def)
  have 2: "\<not> is_cached empty_cache ''hello'' ''https://example.com/a.mp4''"
    by (simp add: is_cached_def exists_def empty_cache_def)
  then have 4: "False \<or> \<not> is_cached empty_cache ''hello'' ''https://example.com/a.mp4''" by simp
  have 3: "get_cache_filename ''hello'' ''https://example.com/a.mp4'' \<notin> set (locked empty_cache)"
    by (simp add: empty_cache_def)
  from transport_failure_cleans_up [where net = connection_lost and w = empty_cache, OF 1 4 3] 1 2 3
  show ?thesis by blast
qed

section \<open>Properties of the downloader: forced downloads, idempotence, batches\<close>

text \<open>
  C9: a forced download of a cached video whose transfer fails with a
  \<open>RequestException\<close> returns \<open>None\<close> and deletes the file that was cached before the
  call (a file that can be deleted): the cleanup removes whatever is at the cache path,
  the other entries stay as they were, and nothing restores the old file.
\<close>

theorem failed_forced_download_deletes_cached_file:
  assumes "is_cached w word video_url"
    and "transport_failure (net (length (requests w)) video_url)"
    and "get_cache_filename word video_url \<notin> set (locked w)"
  shows "snd (download_video net w word video_url True) = Inr None \<and>
         files (fst (download_video net w word video_url True)) =
           AList.delete (get_cache_filename word video_url) (files w) \<and>
         \<not> is_cached (fst (download_video net w word video_url True)) word video_url"
proof -
  have "True \<or> \<not> is_cached w word video_url" by simp
  from download_video_transport_failure [where net = net and w = w, OF assms(2) this assms(3)]
  show ?thesis by (simp add: is_cached_def exists_def delete_notin_dom)
qed

theorem failed_forced_download_deletes_cached_file_witness:
  "is_cached cached_hello ''hello'' ''https://example.com/a.mp4'' \<and>
   transport_failure (network_down (length (requests cached_hello)) ''https://example.com/a.mp4'') \<and>
   get_cache_filename ''hello'' ''https://example.com/a.mp4'' \<notin> set (locked cached_hello) \<and>
   snd (download_video network_down cached_hello ''hello'' ''https://example.com/a.mp4'' True) = Inr None \<and>
   files (fst (download_video network_down cached_hello ''hello'' ''https://example.com/a.mp4'' True)) = [] \<and>
   \<not> is_cached (fst (download_video network_down cached_hello ''hello'' ''https://example.com/a.mp4'' True))
       ''hello'' ''https://example.com/a.mp4''"
proof -
  have 1: "is_cached cached_hello ''hello'' ''https://example.com/a.mp4''"
    by (simp add: is_cached_def example_filename cached_hello_def exists_def)
  have 2: "transport_failure (network_down (length (requests cached_hello)) ''https://example.com/a.mp4'')"
    by (simp add: network_down_def)
  have 3: "get_cache_filename ''hello'' ''https://example.com/a.mp4'' \<notin> set (locked cached_hello)"
    by (simp add: cached_hello_def)
  have 4: "AList.delete (get_cache_filename ''hello'' ''https://example.com/a.mp4'') (files cached_hello) = []"
    by (simp add: example_filename cached_hello_def AList.delete_eq)
  from failed_forced_download_deletes_cached_file
         [where net = network_down and w = cached_hello, OF 1 2 3] 1 2 3 4
  show ?thesis by simp
qed

lemma download_failed_not_Some: "snd (download_failed w name e) \<noteq> Inr (Some p)"
  by (simp add: download_failed_def split: sum.splits)

lemma download_video_cached:
  "is_cached w word video_url \<Longrightarrow>
   download_video net w word video_url False = (w, Inr (Some (get_cache_path w word video_url)))"
  by (simp add: download_video_def is_cached_def Let_def)

lemma download_video_Some:
  assumes "download_video net w word video_url force = (w1, Inr (Some p))"
  shows "p = get_cache_path w word video_url \<and> is_cached w1 word video_url \<and>
         cache_dir w1 = cache_dir w \<and>
         requests w1 = requests w @ (if is_cached w word video_url \<and> \<not> force then [] else [video_url])"
proof (cases "is_cached w word video_url \<and> \<not> force")
  case True
  with assms show ?thesis by (auto simp: download_video_def is_cached_def Let_def)
next
  case False
  let ?name = "get_cache_filename word video_url"
  let ?w1 = "w\<lparr>requests := requests w @ [video_url]\<rparr>"
  from False have go: "\<not> (exists w ?name \<and> \<not> force)" by (simp add: is_cached_def)
  show ?thesis
  proof (cases "net (length (requests w)) video_url")
    case (Get_raises e)
    with assms go download_failed_not_Some [of ?w1 ?name e p] show ?thesis
      by (auto simp: download_video_def Let_def)
  next
    case (Open_raises e)
    with assms go download_failed_not_Some [of ?w1 ?name e p] show ?thesis
      by (auto simp: download_video_def Let_def)
  next
    case (Stream_raises chunks e)
    with assms go download_failed_not_Some [of "write_file ?w1 ?name (written chunks)" ?name e p]
    show ?thesis by (auto simp: download_video_def Let_def)
  next
    case (Complete chunks)
    with assms go have w1: "w1 = write_file ?w1 ?name (written chunks)"
      and p: "p = get_cache_path w word video_url"
      by (auto simp: download_video_def Let_def)
    have "exists w1 ?name" unfolding w1 by (simp add: exists_write_file)
    moreover have "cache_dir w1 = cache_dir w" and "requests w1 = requests w @ [video_url]"
      unfolding w1 by (simp_all add: write_file_def)
    ultimately show ?thesis using p False by (simp add: is_cached_def)
  qed
qed

text \<open>
  C3: when the file is cached and \<open>force\<close> is not set, \<open>download_video\<close> returns the
  cache path and leaves the state as it is, the list of requests included. When a first
  call without \<open>force\<close> returns a path, a second call returns the same path and changes
  nothing; over both calls the network saw one request for the URL when the first call
  had to download the file, and none when the file was cached before.
\<close>

theorem download_idempotent:
  "(is_cached w word video_url \<longrightarrow>
      download_video net w word video_url False = (w, Inr (Some (get_cache_path w word video_url)))) \<and>
   (download_video net w word video_url False = (w1, Inr (Some p)) \<longrightarrow>
      download_video net w1 word video_url False = (w1, Inr (Some p)) \<and>
      requests w1 = requests w @ (if is_cached w word video_url then [] else [video_url]))"
proof (intro conjI impI)
  assume "is_cached w word video_url"
  then show "download_video net w word video_url False =
     (w, Inr (Some (get_cache_path w word video_url)))"
    by (rule download_video_cached)
next
  assume a: "download_video net w word video_url False = (w1, Inr (Some p))"
  note s = download_video_Some [OF a]
  from s have "get_cache_path w1 word video_url = p" by (simp add: get_cache_path_def)
  with s download_video_cached [of w1 word video_url net]
  show "download_video net w1 word video_url False = (w1, Inr (Some p))" by simp
  from s show "requests w1 = requests w @ (if is_cached w word video_url then [] else [video_url])"
    by simp
qed

theorem download_idempotent_witness:
  "\<not> is_cached empty_cache ''hello'' ''https://example.com/a.mp4'' \<and>
   download_video network_up empty_cache ''hello'' ''https://example.com/a.mp4'' False =
     (downloaded_hello, Inr (Some ''cache/hello_f9177317.mp4'')) \<and>
   is_cached downloaded_hello ''hello'' ''https://example.com/a.mp4'' \<and>
   download_video network_up downloaded_hello ''hello'' ''https://example.com/a.mp4'' False =
     (downloaded_hello, Inr (Some ''cache/hello_f9177317.mp4'')) \<and>
   requests downloaded_hello = requests empty_cache @ [''https://example.com/a.mp4'']"
proof -
  note T = download_idempotent [of empty_cache "''hello''" "''https://example.com/a.mp4''"
      network_up downloaded_hello "''cache/hello_f9177317.mp4''"]
  have 1: "\<not> is_cached empty_cache ''hello'' ''https://example.com/a.mp4''"
    by (simp add: is_cached_def exists_def empty_cache_def)
  have 2: "download_video network_up empty_cache ''hello'' ''https://example.com/a.mp4'' False =
     (downloaded_hello, Inr (Some ''cache/hello_f9177317.mp4''))"
    by (simp add: download_video_def Let_def example_filename empty_cache_def exists_def
        network_up_def write_file_def written_def downloaded_hello_def get_cache_path_def)
  have 3: "is_cached downloaded_hello ''hello'' ''https://example.com/a.mp4''"
    by (simp add: is_cached_def example_filename downloaded_hello_def exists_def)
  from T 2 have "download_video network_up downloaded_hello ''hello'' ''https://example.com/a.mp4'' False =
     (downloaded_hello, Inr (Some ''cache/hello_f9177317.mp4'')) \<and>
     requests downloaded_hello = requests empty_cache @
       (if is_cached empty_cache ''hello'' ''https://example.com/a.mp4'' then []
        else [''https://example.com/a.mp4''])"
    by blast
  with 1 2 3 show ?thesis by simp
qed

lemma download_video_path_nonempty:
  "download_video net w word video_url force = (w1, Inr (Some p)) \<Longrightarrow> p \<noteq> []"
  using download_video_Some [of net w word video_url force w1 p]
  by (simp add: get_cache_path_def)

lemma length_successes: "length (successes rs) \<le> length rs"
  by (induction rs rule: successes.induct) auto

lemma download_loop_returns:
  assumes "list_all returned (download_results net w word video_urls force)"
  shows "snd (download_loop net w word video_urls force acc) =
           Inr (acc @ successes (download_results net w word video_urls force)) \<and>
         length (download_results net w word video_urls force) = length video_urls"
  using assms
proof (induction video_urls arbitrary: w acc)
  case Nil
  show ?case by simp
next
  case (Cons video_url video_urls)
  obtain w' r where d: "download_video net w word video_url force = (w', r)"
    by (cases "download_video net w word video_url force")
  show ?case
  proof (cases r)
    case (Inl e)
    with d Cons.prems show ?thesis by simp
  next
    case (Inr res)
    with d Cons.prems have rest: "list_all returned (download_results net w' word video_urls force)"
      by simp
    note IH = Cons.IH [OF rest]
    show ?thesis
    proof (cases res)
      case None
      with d Inr IH [of acc] show ?thesis by simp
    next
      case (Some p)
      with d Inr have "p \<noteq> []" by (auto dest: download_video_path_nonempty)
      with d Inr Some IH [of "acc @ [p]"] show ?thesis by simp
    qed
  qed
qed

lemma download_loop_raises:
  assumes "Inl e \<in> set (download_results net w word video_urls force)"
  shows "snd (download_loop net w word video_urls force acc) = Inl e"
  using assms
proof (induction video_urls arbitrary: w acc)
  case Nil
  then show ?case by simp
next
  case (Cons video_url video_urls)
  obtain w' r where d: "download_video net w word video_url force = (w', r)"
    by (cases "download_video net w word video_url force")
  show ?case
  proof (cases r)
    case (Inl e')
    with d Cons.prems show ?thesis by simp
  next
    case (Inr res)
    with d Cons.prems have rest: "Inl e \<in> set (download_results net w' word video_urls force)"
      by simp
    note IH = Cons.IH [OF rest]
    show ?thesis
    proof (cases res)
      case None
      with d Inr IH [of acc] show ?thesis by simp
    next
      case (Some p)
      with d Inr IH [of "acc @ [p]"] IH [of acc] show ?thesis by simp
    qed
  qed
qed

text \<open>
  C6, as stated: a failure of one URL never aborts the batch. It fails:
  \<open>download_all_videos\<close> has no \<open>try\<close> of its own, so an exception that
  \<open>download_video\<close> does not handle ends the loop. With a destination that cannot be
  opened, the batch stops at the first URL with an \<open>OSError\<close>; the second URL is never
  requested and no list is returned.
\<close>

theorem batch_aborts_counterexample:
  "download_all_videos read_only_disk empty_cache ''hello''
     [''https://example.com/a.mp4'', ''https://example.com/b.mp4''] False =
   (\<lparr>cache_dir = ''cache'', files = [], locked = [],
     requests = [''https://example.com/a.mp4'']\<rparr>, Inl OSError)"
  by (simp add: download_all_videos_def download_video_def Let_def empty_cache_def exists_def
      read_only_disk_def download_failed_def)

text \<open>
  C6, amended: \<open>download_all_videos\<close> calls \<open>download_video\<close> on the URLs in their
  order. When every call returns (a path, or \<open>None\<close> after a failed transfer), the
  batch returns the paths of the calls that returned one, in the order of their URLs,
  every URL was tried, and the list is at most as long as the list of URLs. When a call
  raises, the batch raises the same exception.
\<close>

theorem batch_skips_transport_failures:
  "(list_all returned (download_results net w word video_urls force) \<longrightarrow>
      snd (download_all_videos net w word video_urls force) =
        Inr (successes (download_results net w word video_urls force)) \<and>
      length (download_results net w word video_urls force) = length video_urls \<and>
      length (successes (download_results net w word video_urls force)) \<le> length video_urls) \<and>
   (Inl e \<in> set (download_results net w word video_urls force) \<longrightarrow>
      snd (download_all_videos net w word video_urls force) = Inl e)"
proof (intro conjI impI)
  assume a: "list_all returned (download_results net w word video_urls force)"
  note L = download_loop_returns [OF a, of "[]"]
  from L show "snd (download_all_videos net w word video_urls force) =
        Inr (successes (download_results net w word video_urls force))"
    by (simp add: download_all_videos_def)
  from L show len: "length (download_results net w word video_urls force) = length video_urls"
    by simp
  from length_successes [of "download_results net w word video_urls force"] len
  show "length (successes (download_results net w word video_urls force)) \<le> length video_urls"
    by simp
next
  assume "Inl e \<in> set (download_results net w word video_urls force)"
  then show "snd (download_all_videos net w word video_urls force) = Inl e"
    unfolding download_all_videos_def by (rule download_loop_raises)
qed

lemma example_filename_b:
  "get_cache_filename ''hello'' ''https://example.com/b.mp4'' = ''hello_afb73dc6.mp4''"
  by code_simp

theorem batch_skips_transport_failures_witness:
  "list_all returned
     (download_results flaky_network empty_cache ''hello''
        [''https://example.com/a.mp4'', ''https://example.com/b.mp4''] False) \<and>
   snd (download_all_videos flaky_network empty_cache ''hello''
        [''https://example.com/a.mp4'', ''https://example.com/b.mp4''] False) =
     Inr [''cache/hello_afb73dc6.mp4''] \<and>
   Inl OSError \<in> set
     (download_results read_only_disk empty_cache ''hello''
        [''https://example.com/a.mp4'', ''https://example.com/b.mp4''] False) \<and>
   snd (download_all_videos read_only_disk empty_cache ''hello''
        [''https://example.com/a.mp4'', ''https://example.com/b.mp4''] False) = Inl OSError"
proof -
  let ?urls = "[''https://example.com/a.mp4'', ''https://example.com/b.mp4'']"
  note T1 = batch_skips_transport_failures [of flaky_network empty_cache "''hello''" ?urls False OSError]
  note T2 = batch_skips_transport_failures [of read_only_disk empty_cache "''hello''" ?urls False OSError]
  have 1: "download_results flaky_network empty_cache ''hello'' ?urls False =
             [Inr None, Inr (Some ''cache/hello_afb73dc6.mp4'')]"
    by (simp add: download_video_def Let_def empty_cache_def exists_def flaky_network_def
        download_failed_def write_file_def get_cache_path_def example_filename_b)
  have 2: "download_results read_only_disk empty_cache ''hello'' ?urls False = [Inl OSError]"
    by (simp add: download_video_def Let_def empty_cache_def exists_def read_only_disk_def
        download_failed_def)
  have 3: "list_all returned (download_results flaky_network empty_cache ''hello'' ?urls False)"
    unfolding 1 by simp
  have 4: "Inl OSError \<in> set (download_results read_only_disk empty_cache ''hello'' ?urls False)"
    unfolding 2 by simp
  from T1 3 have "snd (download_all_videos flaky_network empty_cache ''hello'' ?urls False) =
      Inr (successes (download_results flaky_network empty_cache ''hello'' ?urls False))"
    by blast
  then have 5: "snd (download_all_videos flaky_network empty_cache ''hello'' ?urls False) =
      Inr [''cache/hello_afb73dc6.mp4'']"
    unfolding 1 by simp
  from T2 4 have 6: "snd (download_all_videos read_only_disk empty_cache ''hello'' ?urls False) =
      Inl OSError"
    by blast
  from 3 4 5 6 show ?thesis by blast
qed

section \<open>Properties of glob patterns\<close>

lemma split_path_plain: "CHR ''/'' \<notin> set s \<Longrightarrow> split_path s = [s]"
  unfolding split_path_def by (induction s) auto

lemma translate_plain: "plain p \<Longrightarrow> translate (p @ q) = map Literal p @ translate q"
proof (induction p)
  case Nil
  show ?case by simp
next
  case (Cons c p)
  then have "plain p" and "c \<noteq> CHR ''*''" and "c \<noteq> CHR ''?''" and "c \<noteq> CHR ''[''"
    by (auto simp: plain_def)
  with Cons.IH show ?case by simp
qed

lemma matches_literals: "matches (map Literal q) s = (s = q)"
proof (induction q arbitrary: s)
  case Nil
  show ?case by auto
next
  case (Cons c q)
  show ?case by (cases s) (auto simp: Cons.IH)
qed

lemma matches_literal_prefix:
  "matches (map Literal p @ items) s = (prefix p s \<and> matches items (drop (length p) s))"
proof (induction p arbitrary: s)
  case Nil
  show ?case by simp
next
  case (Cons c p)
  show ?case by (cases s) (auto simp: Cons.IH)
qed

lemma matches_star_literals: "matches (Star # map Literal q) s = suffix q s"
proof (induction s)
  case Nil
  show ?case by (auto simp: matches_literals)
next
  case (Cons x s)
  show ?case by (auto simp: Cons.IH matches_literals suffix_Cons)
qed

lemma translate_star_mp4:
  "translate ''_*.mp4'' = Literal CHR ''_'' # Star # map Literal ''.mp4''"
  "translate ''*.mp4'' = Star # map Literal ''.mp4''"
  by code_simp+

lemma fnmatch_all_mp4: "fnmatch name ''*.mp4'' = suffix ''.mp4'' name"
  unfolding fnmatch_def translate_star_mp4 by (rule matches_star_literals)

lemma fnmatch_word_mp4:
  assumes "plain p"
  shows "fnmatch name (p @ ''_*.mp4'') =
         (prefix (p @ ''_'') name \<and> suffix ''.mp4'' (drop (length p + 1) name))"
proof -
  have "translate (p @ ''_*.mp4'') = map Literal p @ translate ''_*.mp4''"
    using assms by (rule translate_plain)
  also have "\<dots> = map Literal (p @ ''_'') @ (Star # map Literal ''.mp4'')"
    unfolding translate_star_mp4 by simp
  finally have t: "translate (p @ ''_*.mp4'') = map Literal (p @ ''_'') @ (Star # map Literal ''.mp4'')" .
  have "matches (map Literal (p @ ''_'') @ (Star # map Literal ''.mp4'')) name =
        (prefix (p @ ''_'') name \<and> matches (Star # map Literal ''.mp4'') (drop (length (p @ ''_'')) name))"
    by (rule matches_literal_prefix)
  also have "\<dots> = (prefix (p @ ''_'') name \<and> suffix ''.mp4'' (drop (length p + 1) name))"
    unfolding matches_star_literals by simp
  finally show ?thesis unfolding fnmatch_def t .
qed

lemma matches_star_skip: "matches items s \<Longrightarrow> matches (Star # items) (pre @ s)"
proof (induction pre)
  case Nil
  then show ?case by (cases s) auto
next
  case (Cons a pre)
  then show ?case by simp
qed

lemma dropWhile_append_keep:
  assumes "q = [] \<or> \<not> P (hd q)"
  shows "dropWhile P (p @ q) = dropWhile P p @ q"
proof (induction p)
  case Nil
  from assms show ?case by (cases q) auto
next
  case (Cons a p)
  then show ?case by simp
qed

lemma translate_matches_self:
  assumes "CHR ''['' \<notin> set p" and "q = [] \<or> hd q \<noteq> CHR ''*''" and "matches (translate q) t"
  shows "matches (translate (p @ q)) (p @ t)"
  using assms(1)
proof (induction p rule: length_induct)
  case (1 p)
  show ?case
  proof (cases p)
    case Nil
    with assms(3) show ?thesis by simp
  next
    case (Cons c p')
    with "1.prems" have nb: "c \<noteq> CHR ''[''" and nb': "CHR ''['' \<notin> set p'" by auto
    show ?thesis
    proof (cases "c = CHR ''*''")
      case True
      let ?p'' = "dropWhile (\<lambda>c. c = CHR ''*'') p'"
      have d: "dropWhile (\<lambda>c. c = CHR ''*'') (p' @ q) = ?p'' @ q"
        using assms(2) by (intro dropWhile_append_keep) auto
      have "length ?p'' < length p" using Cons by (simp add: length_dropWhile_le less_Suc_eq_le)
      moreover have "CHR ''['' \<notin> set ?p''" using nb' by (auto dest: set_dropWhileD)
      ultimately have IH: "matches (translate (?p'' @ q)) (?p'' @ t)" using "1.IH" by blast
      have e: "(c # takeWhile (\<lambda>c. c = CHR ''*'') p') @ (?p'' @ t) = c # p' @ t" by simp
      have "matches (Star # translate (?p'' @ q))
              ((c # takeWhile (\<lambda>c. c = CHR ''*'') p') @ (?p'' @ t))"
        using IH by (rule matches_star_skip)
      then have m: "matches (Star # translate (?p'' @ q)) (c # p' @ t)"
        by (simp only: e)
      have "translate (p @ q) = Star # translate (?p'' @ q)"
        using True Cons d by simp
      with m have "matches (translate (p @ q)) (c # p' @ t)" by (simp only:)
      with Cons show ?thesis by simp
    next
      case False
      have "length p' < length p" using Cons by simp
      with nb' "1.IH" have IH: "matches (translate (p' @ q)) (p' @ t)" by blast
      with False nb Cons show ?thesis by simp
    qed
  qed
qed

lemma matches_word_pattern:
  assumes "CHR ''['' \<notin> set p"
  shows "fnmatch (p @ ''_'' @ x @ ''.mp4'') (p @ ''_*.mp4'')"
proof -
  have a: "matches (Star # map Literal ''.mp4'') (x @ ''.mp4'')"
    unfolding matches_star_literals by (simp add: suffix_def)
  have "matches (Literal CHR ''_'' # Star # map Literal ''.mp4'') (CHR ''_'' # x @ ''.mp4'')"
    using a by (simp only: matches.simps simp_thms)
  then have "matches (translate ''_*.mp4'') (''_'' @ x @ ''.mp4'')"
    unfolding translate_star_mp4 by simp
  with assms show ?thesis
    unfolding fnmatch_def by (intro translate_matches_self) simp_all
qed

lemma suffix_mp4_after_prefix:
  assumes "prefix (p @ ''_'') name"
  shows "suffix ''.mp4'' (drop (length p + 1) name) = suffix ''.mp4'' name"
proof -
  from assms obtain r where name: "name = (p @ ''_'') @ r" by (auto simp: prefix_def)
  have d: "drop (length p + 1) name = r" by (simp add: name)
  have "suffix ''.mp4'' r" if s: "suffix ''.mp4'' ((p @ ''_'') @ r)"
  proof (rule ccontr)
    assume n: "\<not> suffix ''.mp4'' r"
    have "suffix r ((p @ ''_'') @ r)" by (rule suffixI) simp
    with s have "suffix ''.mp4'' r \<or> suffix r ''.mp4''" by (rule suffix_same_cases)
    with n obtain zs where z: "''.mp4'' = zs @ r" by (auto simp: suffix_def)
    from s obtain ws where "(p @ ''_'') @ r = ws @ ''.mp4''" by (auto simp: suffix_def)
    with z have "(p @ ''_'') @ r = (ws @ zs) @ r" by simp
    then have e: "p @ ''_'' = ws @ zs" by (simp only: append_same_eq)
    from n z have ne: "zs \<noteq> []" by (auto simp: suffix_def)
    from e ne have l: "last zs = CHR ''_''" by (metis last_appendR last_snoc)
    from z have "set zs \<subseteq> set ''.mp4''" by (metis set_append Un_upper1)
    with ne l last_in_set [of zs] show False by auto
  qed
  moreover have "suffix ''.mp4'' ((p @ ''_'') @ r)" if "suffix ''.mp4'' r"
    using that by (rule suffix_appendI)
  ultimately have "suffix ''.mp4'' r = suffix ''.mp4'' name" unfolding name by blast
  then show ?thesis by (simp only: d)
qed

lemma parse_parts_plain:
  "CHR ''/'' \<notin> set s \<Longrightarrow> s \<noteq> [] \<Longrightarrow> s \<noteq> ''.'' \<Longrightarrow> parse_parts s = [s]"
  by (simp add: parse_parts_def split_path_plain)

lemma has_double_star_append:
  "\<not> has_double_star p \<Longrightarrow> \<not> has_double_star (p @ ''_*.mp4'')"
  by (induction p rule: has_double_star.induct) auto

lemma no_star_no_double_star: "CHR ''*'' \<notin> set p \<Longrightarrow> \<not> has_double_star p"
  by (induction p rule: has_double_star.induct) auto

lemma match_single_part:
  assumes "pat \<noteq> ''**''"
  shows "match_parts [pat] names = (case names of [name] \<Rightarrow> component_match pat name | _ \<Rightarrow> False)"
proof (cases names)
  case Nil
  with assms show ?thesis by simp
next
  case (Cons name rest)
  with assms show ?thesis by (cases rest) auto
qed

lemma glob_single:
  assumes "pattern \<noteq> []" and "CHR ''/'' \<notin> set pattern" and "pattern \<noteq> ''.''"
    and "\<not> has_double_star pattern"
  shows "glob w pattern =
         Inr (filter (\<lambda>name. case entry_name name of
                                 None \<Rightarrow> False
                               | Some file_name \<Rightarrow> component_match pattern file_name)
                (map fst (files w)))"
proof -
  have hd: "hd pattern \<noteq> CHR ''/''" and last: "last pattern \<noteq> CHR ''/''"
    using assms(1,2) by (metis hd_in_set, metis last_in_set)
  have parts: "parse_parts pattern = [pattern]"
    using assms(1-3) by (simp add: parse_parts_plain)
  have ne: "pattern \<noteq> ''**''" using assms(4) by auto
  have sel: "(is_entry name \<and> match_parts [pattern] (parse_parts name)) =
             (case entry_name name of None \<Rightarrow> False
              | Some file_name \<Rightarrow> component_match pattern file_name)" for name
    unfolding match_single_part [OF ne]
    by (auto simp: is_entry_def entry_name_def split: list.splits)
  show ?thesis
    using assms(1,4) hd last ne by (simp add: glob_def Let_def parts sel)
qed

lemma component_match_all_mp4: "component_match ''*.mp4'' name = suffix ''.mp4'' name"
proof -
  have "is_wildcard_pattern ''*.mp4''" by (simp add: is_wildcard_pattern_def)
  moreover have "suffix ''.mp4'' name \<Longrightarrow> name \<noteq> ''..''" by (auto simp: suffix_def)
  ultimately show ?thesis by (auto simp: component_match_def fnmatch_all_mp4)
qed

lemma component_match_word_mp4:
  assumes "plain p"
  shows "component_match (p @ ''_*.mp4'') name =
         (prefix (p @ ''_'') name \<and> suffix ''.mp4'' (drop (length p + 1) name))"
proof -
  have w: "is_wildcard_pattern (p @ ''_*.mp4'')" by (simp add: is_wildcard_pattern_def)
  have "\<not> suffix ''.mp4'' (drop (length p + 1) ''..'')"
  proof
    assume "suffix ''.mp4'' (drop (length p + 1) ''..'')"
    then have "length ''.mp4'' \<le> length (drop (length p + 1) ''..'')" by (rule suffix_length_le)
    then show False by simp
  qed
  then have "suffix ''.mp4'' (drop (length p + 1) name) \<Longrightarrow> name \<noteq> ''..''" by auto
  with w show ?thesis by (auto simp: component_match_def fnmatch_word_mp4 [OF assms])
qed

lemma glob_all_mp4:
  "glob w ''*.mp4'' = Inr (filter (selected None) (map fst (files w)))"
proof -
  have "glob w ''*.mp4'' =
         Inr (filter (\<lambda>name. case entry_name name of
                                 None \<Rightarrow> False
                               | Some file_name \<Rightarrow> component_match ''*.mp4'' file_name)
                (map fst (files w)))"
    by (rule glob_single) simp_all
  moreover have "(\<lambda>name. case entry_name name of None \<Rightarrow> False
                  | Some file_name \<Rightarrow> component_match ''*.mp4'' file_name) = selected None"
    by (rule ext) (simp add: selected_def component_match_all_mp4 split: option.splits)
  ultimately show ?thesis by (simp only:)
qed

lemma selected_empty_word: "selected (Some []) = selected None"
  by (rule ext) (simp add: selected_def split: option.splits)

lemma glob_word_mp4:
  assumes "wd \<noteq> []" and "plain (safe_word wd)" and "CHR ''/'' \<notin> set (safe_word wd)"
  shows "glob w (safe_word wd @ ''_*.mp4'') = Inr (filter (selected (Some wd)) (map fst (files w)))"
proof -
  let ?p = "safe_word wd @ ''_*.mp4''"
  have 1: "?p \<noteq> []" and 2: "CHR ''/'' \<notin> set ?p" and 3: "?p \<noteq> ''.''"
    using assms(3) by auto
  have 4: "\<not> has_double_star ?p"
    using assms(2) by (intro has_double_star_append no_star_no_double_star) (simp add: plain_def)
  have c: "component_match ?p file_name =
           (prefix (safe_word wd @ ''_'') file_name \<and> suffix ''.mp4'' file_name)" for file_name
    unfolding component_match_word_mp4 [OF assms(2)]
    using suffix_mp4_after_prefix [of "safe_word wd" file_name] by blast
  have "(\<lambda>name. case entry_name name of None \<Rightarrow> False
           | Some file_name \<Rightarrow> component_match ?p file_name) = selected (Some wd)"
    using assms(1) by (intro ext) (simp add: selected_def c split: option.splits)
  then show ?thesis
    unfolding glob_single [OF 1 2 3 4] by (simp only:)
qed

lemma files_to_delete_selected:
  assumes "case word of None \<Rightarrow> True
           | Some wd \<Rightarrow> plain (safe_word wd) \<and> CHR ''/'' \<notin> set (safe_word wd)"
  shows "files_to_delete w word = Inr (filter (selected word) (map fst (files w)))"
proof (cases word)
  case None
  then show ?thesis by (simp add: files_to_delete_def glob_all_mp4)
next
  case (Some wd)
  show ?thesis
  proof (cases "wd = []")
    case True
    with Some show ?thesis by (simp add: files_to_delete_def glob_all_mp4 selected_empty_word)
  next
    case False
    with Some assms show ?thesis by (simp add: files_to_delete_def glob_word_mp4)
  qed
qed

section \<open>Properties of the deletion loop and of the cache store\<close>

lemma unlink_cases:
  "unlink w name =
     (if deletable w name then Inr (w\<lparr>files := AList.delete name (files w)\<rparr>) else Inl OSError)"
  by (auto simp: unlink_def deletable_def)

lemma deletable_after_delete:
  "deletable (w\<lparr>files := AList.delete name (files w)\<rparr>) name' =
     (name' \<noteq> name \<and> deletable w name')"
  by (auto simp: deletable_def exists_def AList.delete_eq)

lemma delete_loop_files:
  "files (fst (delete_loop w names n)) =
     filter (\<lambda>entry. \<not> (fst entry \<in> set names \<and> fst entry \<notin> set (locked w))) (files w) \<and>
   locked (fst (delete_loop w names n)) = locked w \<and>
   cache_dir (fst (delete_loop w names n)) = cache_dir w \<and>
   requests (fst (delete_loop w names n)) = requests w"
proof (induction names arbitrary: w n)
  case Nil
  show ?case by simp
next
  case (Cons name names)
  show ?case
  proof (cases "deletable w name")
    case True
    let ?w' = "w\<lparr>files := AList.delete name (files w)\<rparr>"
    from True have "name \<notin> set (locked w)" by (simp add: deletable_def)
    then have "filter (\<lambda>entry. \<not> (fst entry \<in> set names \<and> fst entry \<notin> set (locked w)))
                 (AList.delete name (files w)) =
               filter (\<lambda>entry. \<not> (fst entry \<in> set (name # names) \<and> fst entry \<notin> set (locked w)))
                 (files w)"
      by (auto simp: AList.delete_eq intro: filter_cong)
    with True Cons.IH [of ?w' "n + 1"] show ?thesis by (simp add: unlink_cases)
  next
    case False
    then have "\<forall>entry \<in> set (files w). fst entry = name \<longrightarrow> fst entry \<in> set (locked w)"
      by (auto simp: deletable_def exists_def)
    then have "filter (\<lambda>entry. \<not> (fst entry \<in> set names \<and> fst entry \<notin> set (locked w))) (files w) =
               filter (\<lambda>entry. \<not> (fst entry \<in> set (name # names) \<and> fst entry \<notin> set (locked w)))
                 (files w)"
      by (auto intro: filter_cong)
    with False Cons.IH [of w n] show ?thesis by (simp add: unlink_cases)
  qed
qed

lemma delete_loop_count:
  assumes "distinct names"
  shows "snd (delete_loop w names n) = n + length (filter (deletable w) names)"
  using assms
proof (induction names arbitrary: w n)
  case Nil
  show ?case by simp
next
  case (Cons name names)
  then have d: "distinct names" and notin: "name \<notin> set names" by simp_all
  show ?case
  proof (cases "deletable w name")
    case True
    let ?w' = "w\<lparr>files := AList.delete name (files w)\<rparr>"
    from notin have "filter (deletable ?w') names = filter (deletable w) names"
      by (auto simp: deletable_after_delete intro: filter_cong)
    with True Cons.IH [OF d, of ?w' "n + 1"] show ?thesis by (simp add: unlink_cases)
  next
    case False
    with Cons.IH [OF d, of w n] show ?thesis by (simp add: unlink_cases)
  qed
qed

lemma slash_not_hex: "\<not> is_hex CHR ''/''"
  by (simp add: is_hex_def)

lemma url_hash_no_slash: "CHR ''/'' \<notin> set (url_hash u)"
  using hex_url_hash [of u] slash_not_hex by (auto simp: list_all_iff)

lemma entry_name_plain:
  assumes "CHR ''/'' \<notin> set name" and "name \<noteq> []" and "name \<noteq> ''.''"
  shows "entry_name name = Some name"
proof -
  have "hd name \<noteq> CHR ''/''" using assms(1,2) by (metis hd_in_set)
  then show ?thesis using assms by (simp add: entry_name_def parse_parts_plain)
qed

lemma entry_name_cache_filename:
  assumes "CHR ''/'' \<notin> set (safe_word word)"
  shows "entry_name (get_cache_filename word url) = Some (get_cache_filename word url)"
proof (rule entry_name_plain)
  show "CHR ''/'' \<notin> set (get_cache_filename word url)"
    using assms url_hash_no_slash [of url] by (simp add: get_cache_filename_def)
  show "get_cache_filename word url \<noteq> []" by (simp add: get_cache_filename_def)
  have "length (get_cache_filename word url) \<noteq> length ''.''"
    by (simp add: get_cache_filename_def length_url_hash)
  then show "get_cache_filename word url \<noteq> ''.''" by metis
qed

lemma delete_loop_world:
  "fst (delete_loop w names n) =
     w\<lparr>files := filter (\<lambda>entry. \<not> (fst entry \<in> set names \<and> fst entry \<notin> set (locked w)))
                  (files w)\<rparr>"
  by (rule world.equality) (simp_all add: delete_loop_files)

lemma clear_cache_names:
  assumes "files_to_delete w word = Inr names"
  shows "clear_cache w word =
     (w\<lparr>files := filter (\<lambda>entry. \<not> (fst entry \<in> set names \<and> fst entry \<notin> set (locked w)))
                   (files w)\<rparr>,
      Inr (snd (delete_loop w names 0)))"
  unfolding clear_cache_def assms
  using delete_loop_world [of w names 0] by (simp add: split_beta)

lemma clear_cache_filter:
  assumes d: "distinct (map fst (files w))"
    and F: "files_to_delete w word = Inr (filter P (map fst (files w)))"
  shows "clear_cache w word =
     (w\<lparr>files := filter (\<lambda>entry. \<not> (P (fst entry) \<and> fst entry \<notin> set (locked w))) (files w)\<rparr>,
      Inr (length (filter (\<lambda>entry. P (fst entry) \<and> fst entry \<notin> set (locked w)) (files w))))"
proof -
  let ?names = "filter P (map fst (files w))"
  have dn: "distinct ?names" using d by simp
  have "filter (deletable w) ?names = filter (\<lambda>name. name \<notin> set (locked w)) ?names"
    by (auto simp: deletable_def exists_def intro: filter_cong)
  then have "snd (delete_loop w ?names 0) = length (filter (\<lambda>name. name \<notin> set (locked w)) ?names)"
    using delete_loop_count [OF dn, of w 0] by simp
  also have "\<dots> = length (filter (\<lambda>entry. P (fst entry) \<and> fst entry \<notin> set (locked w)) (files w))"
    by (simp add: filter_map comp_def conj_commute)
  finally have cnt: "snd (delete_loop w ?names 0) =
      length (filter (\<lambda>entry. P (fst entry) \<and> fst entry \<notin> set (locked w)) (files w))" .
  have fl: "filter (\<lambda>entry. \<not> (fst entry \<in> set ?names \<and> fst entry \<notin> set (locked w))) (files w) =
            filter (\<lambda>entry. \<not> (P (fst entry) \<and> fst entry \<notin> set (locked w))) (files w)"
    by (auto intro: filter_cong)
  show ?thesis unfolding clear_cache_names [OF F] cnt fl ..
qed

lemma safe_hello: "safe_word ''hello'' = ''hello''"
  by code_simp
lemma safe_world: "safe_word ''world'' = ''world''"
  by code_simp

lemma clear_hello_keeps_world:
  "clear_cache (two_words u1 b1 u2 b2) (Some ''hello'') =
     (\<lparr>cache_dir = ''cache'', files = [(get_cache_filename ''world'' u2, b2)], locked = [],
       requests = []\<rparr>, Inr 1)"
proof -
  let ?w = "two_words u1 b1 u2 b2"
  let ?H = "get_cache_filename ''hello'' u1" and ?W = "get_cache_filename ''world'' u2"
  have ne: "?H \<noteq> ?W" by (simp add: get_cache_filename_def safe_hello safe_world)
  have d: "distinct (map fst (files ?w))" using ne by (simp add: two_words_def)
  have F: "files_to_delete ?w (Some ''hello'') =
             Inr (filter (selected (Some ''hello'')) (map fst (files ?w)))"
    by (rule files_to_delete_selected) (simp add: safe_hello plain_def)
  have eH: "entry_name ?H = Some ?H" by (rule entry_name_cache_filename) (simp add: safe_hello)
  have eW: "entry_name ?W = Some ?W" by (rule entry_name_cache_filename) (simp add: safe_world)
  have sH: "selected (Some ''hello'') ?H"
    unfolding selected_def eH by (simp add: safe_hello) (simp add: get_cache_filename_def safe_hello suffix_def)
  have sW: "\<not> selected (Some ''hello'') ?W"
    unfolding selected_def eW by (simp add: safe_hello) (simp add: get_cache_filename_def safe_world)
  show ?thesis
    unfolding clear_cache_filter [OF d F]
    using sH sW by (simp add: two_words_def)
qed

text \<open>
  C8, as stated: for every optional word, \<open>clear_cache\<close> deletes the files under the
  prefix of the word when a word is given, and returns the number of files deleted. It
  fails for the empty word: the test \<open>if word:\<close> takes it for no word at all, and the
  whole cache is cleared, here a file of the word \<open>world\<close> that does not begin with the
  prefix \<open>_\<close>. It also fails for words with characters that a pattern reads in its own
  way, since the word enters the pattern as it is: clearing the word \<open>?ello\<close> deletes
  the file of the word \<open>hello\<close>, which does not begin with the prefix \<open>?ello_\<close>,
  and for the word \<open>**\<close> \<open>Path.glob\<close> raises \<open>ValueError\<close> before any file is
  deleted, so that no count is returned.
\<close>

theorem clear_cache_empty_word_counterexample:
  "clear_cache only_world (Some []) =
     (\<lparr>cache_dir = ''cache'', files = [], locked = [], requests = []\<rparr>, Inr 1) \<and>
   \<not> prefix (safe_word [] @ ''_'') ''world_270c1b08.mp4'' \<and>
   clear_cache cached_hello (Some ''?ello'') =
     (\<lparr>cache_dir = ''cache'', files = [], locked = [], requests = []\<rparr>, Inr 1) \<and>
   \<not> prefix (safe_word ''?ello'' @ ''_'') ''hello_f9177317.mp4'' \<and>
   clear_cache only_world (Some ''**'') = (only_world, Inl ValueError)"
proof -
  have d: "distinct (map fst (files only_world))" by (simp add: only_world_def)
  have F: "files_to_delete only_world (Some []) =
             Inr (filter (selected (Some [])) (map fst (files only_world)))"
    by (rule files_to_delete_selected) (simp add: safe_word_def replace_def lower_def plain_def)
  have e: "entry_name ''world_270c1b08.mp4'' = Some ''world_270c1b08.mp4''"
    by (rule entry_name_plain) simp_all
  have s: "selected (Some []) ''world_270c1b08.mp4''"
    unfolding selected_def e by (simp add: suffix_def)
  have 1: "clear_cache only_world (Some []) =
     (\<lparr>cache_dir = ''cache'', files = [], locked = [], requests = []\<rparr>, Inr 1)"
    unfolding clear_cache_filter [OF d F]
    using s by (simp add: only_world_def)
  have 2: "\<not> prefix (safe_word [] @ ''_'') ''world_270c1b08.mp4''"
    by (simp add: safe_word_def replace_def lower_def)
  have "glob only_world (safe_word ''**'' @ ''_*.mp4'') = Inl ValueError" by code_simp
  then have 3: "clear_cache only_world (Some ''**'') = (only_world, Inl ValueError)"
    by (simp add: clear_cache_def files_to_delete_def)
  have "glob cached_hello (safe_word ''?ello'' @ ''_*.mp4'') = Inr [''hello_f9177317.mp4'']"
    by code_simp
  then have 4: "clear_cache cached_hello (Some ''?ello'') =
     (\<lparr>cache_dir = ''cache'', files = [], locked = [], requests = []\<rparr>, Inr 1)"
    by (simp add: clear_cache_def files_to_delete_def unlink_def exists_def cached_hello_def
        AList.delete_eq)
  have 5: "\<not> prefix (safe_word ''?ello'' @ ''_'') ''hello_f9177317.mp4''"
    by code_simp
  from 1 2 3 4 5 show ?thesis by blast
qed

text \<open>
  C8, amended: let the file-name form of the word hold none of the characters \<open>*\<close>,
  \<open>?\<close>, \<open>[\<close> and \<open>/\<close>, and let no two entries of the cache share a name. Then
  \<open>clear_cache\<close> returns, the files left are the ones that were not selected (the
  \<open>.mp4\<close> files of the cache directory under the prefix of the word, or all of them
  without a word or with the empty word) together with the selected ones whose deletion
  failed, and the count returned is the number of files deleted, the difference between
  the numbers of files before and after. A failing deletion does not stop the loop: every
  other selected file is deleted. After caching one file each for \<open>hello\<close> and
  \<open>world\<close>, whatever their URLs and contents, clearing \<open>hello\<close> returns 1 and leaves
  exactly the file of \<open>world\<close>.
\<close>

theorem clear_cache_deletes_and_counts:
  "(distinct (map fst (files w)) \<and>
    (case word of None \<Rightarrow> True
     | Some wd \<Rightarrow> plain (safe_word wd) \<and> CHR ''/'' \<notin> set (safe_word wd)) \<longrightarrow>
      clear_cache w word =
        (w\<lparr>files := filter (\<lambda>entry. \<not> (selected word (fst entry) \<and> fst entry \<notin> set (locked w)))
                      (files w)\<rparr>,
         Inr (length (filter (\<lambda>entry. selected word (fst entry) \<and> fst entry \<notin> set (locked w))
                        (files w)))) \<and>
      (\<exists>w' count. clear_cache w word = (w', Inr count) \<and>
                   count = length (files w) - length (files w'))) \<and>
   clear_cache (two_words u1 b1 u2 b2) (Some ''hello'') =
     (\<lparr>cache_dir = ''cache'', files = [(get_cache_filename ''world'' u2, b2)], locked = [],
       requests = []\<rparr>, Inr 1)"
proof (intro conjI impI)
  assume a: "distinct (map fst (files w)) \<and>
    (case word of None \<Rightarrow> True
     | Some wd \<Rightarrow> plain (safe_word wd) \<and> CHR ''/'' \<notin> set (safe_word wd))"
  then have d: "distinct (map fst (files w))" by blast
  from a have F: "files_to_delete w word = Inr (filter (selected word) (map fst (files w)))"
    by (intro files_to_delete_selected) blast
  let ?del = "\<lambda>entry. selected word (fst entry) \<and> fst entry \<notin> set (locked w)"
  show r: "clear_cache w word =
        (w\<lparr>files := filter (\<lambda>entry. \<not> ?del entry) (files w)\<rparr>,
         Inr (length (filter ?del (files w))))"
    using d F by (rule clear_cache_filter)
  have "length (files w) = length (filter ?del (files w)) + length (filter (\<lambda>entry. \<not> ?del entry) (files w))"
    by (rule sum_length_filter_compl [symmetric])
  then have "length (filter ?del (files w)) =
             length (files w) - length (files (w\<lparr>files := filter (\<lambda>entry. \<not> ?del entry) (files w)\<rparr>))"
    by simp
  with r show "\<exists>w' count. clear_cache w word = (w', Inr count) \<and>
                   count = length (files w) - length (files w')"
    by blast
next
  show "clear_cache (two_words u1 b1 u2 b2) (Some ''hello'') =
     (\<lparr>cache_dir = ''cache'', files = [(get_cache_filename ''world'' u2, b2)], locked = [],
       requests = []\<rparr>, Inr 1)"
    by (rule clear_hello_keeps_world)
qed

lemma selected_mixed_cache:
  "filter (\<lambda>entry. selected None (fst entry) \<and> fst entry \<notin> set (locked mixed_cache))
     (files mixed_cache) = [(''world_270c1b08.mp4'', ''b''), (''hello_afb73dc6.mp4'', ''c'')]"
  "filter (\<lambda>entry. \<not> (selected None (fst entry) \<and> fst entry \<notin> set (locked mixed_cache)))
     (files mixed_cache) =
   [(''hello_f9177317.mp4'', ''a''), (''notes.txt'', ''d''), (''old/hello_f9177317.mp4'', ''e'')]"
  "filter (\<lambda>entry. selected (Some ''hello'') (fst entry) \<and> fst entry \<notin> set (locked mixed_cache))
     (files mixed_cache) = [(''hello_afb73dc6.mp4'', ''c'')]"
  "filter (\<lambda>entry. \<not> (selected (Some ''hello'') (fst entry) \<and> fst entry \<notin> set (locked mixed_cache)))
     (files mixed_cache) =
   [(''hello_f9177317.mp4'', ''a''), (''world_270c1b08.mp4'', ''b''), (''notes.txt'', ''d''),
    (''old/hello_f9177317.mp4'', ''e'')]"
  by code_simp+

theorem clear_cache_deletes_and_counts_witness:
  "distinct (map fst (files mixed_cache)) \<and>
   locked mixed_cache = [''hello_f9177317.mp4''] \<and>
   plain (safe_word ''hello'') \<and> CHR ''/'' \<notin> set (safe_word ''hello'') \<and>
   clear_cache mixed_cache None =
     (mixed_cache\<lparr>files := [(''hello_f9177317.mp4'', ''a''), (''notes.txt'', ''d''),
                              (''old/hello_f9177317.mp4'', ''e'')]\<rparr>, Inr 2) \<and>
   clear_cache mixed_cache (Some ''hello'') =
     (mixed_cache\<lparr>files := [(''hello_f9177317.mp4'', ''a''), (''world_270c1b08.mp4'', ''b''),
                              (''notes.txt'', ''d''), (''old/hello_f9177317.mp4'', ''e'')]\<rparr>,
      Inr 1)"
proof -
  have d: "distinct (map fst (files mixed_cache))" by code_simp
  have p: "plain (safe_word ''hello'')" by code_simp
  have s: "CHR ''/'' \<notin> set (safe_word ''hello'')" by code_simp
  from clear_cache_deletes_and_counts [of mixed_cache None] d
  have 1: "clear_cache mixed_cache None =
     (mixed_cache\<lparr>files := [(''hello_f9177317.mp4'', ''a''), (''notes.txt'', ''d''),
                              (''old/hello_f9177317.mp4'', ''e'')]\<rparr>, Inr 2)"
    unfolding selected_mixed_cache by simp
  from clear_cache_deletes_and_counts [of mixed_cache "Some ''hello''"] d p s
  have 2: "clear_cache mixed_cache (Some ''hello'') =
     (mixed_cache\<lparr>files := [(''hello_f9177317.mp4'', ''a''), (''world_270c1b08.mp4'', ''b''),
                              (''notes.txt'', ''d''), (''old/hello_f9177317.mp4'', ''e'')]\<rparr>,
      Inr 1)"
    unfolding selected_mixed_cache by simp
  have l: "locked mixed_cache = [''hello_f9177317.mp4'']" by (simp add: mixed_cache_def)
  from d l p s 1 2 show ?thesis by blast
qed

lemma longer_word_matches_shorter_pattern:
  assumes "prefix (safe_word w1 @ ''_'') (safe_word w2)"
    and "CHR ''['' \<notin> set (safe_word w1)"
  shows "component_match (safe_word w1 @ ''_*.mp4'') (get_cache_filename w2 url)"
proof -
  let ?name = "get_cache_filename w2 url"
  from assms(1) obtain rest where s2: "safe_word w2 = safe_word w1 @ ''_'' @ rest"
    by (auto simp: prefix_def)
  have name: "?name = safe_word w1 @ ''_'' @ (rest @ ''_'' @ url_hash url) @ ''.mp4''"
    by (simp add: get_cache_filename_def s2)
  have m: "fnmatch ?name (safe_word w1 @ ''_*.mp4'')"
    unfolding name using assms(2) by (rule matches_word_pattern)
  have "length ?name \<noteq> length ''..''" by (simp add: get_cache_filename_def length_url_hash)
  then have "?name \<noteq> ''..''" by metis
  with m show ?thesis by (simp add: component_match_def is_wildcard_pattern_def)
qed

lemma glob_shorter_word:
  assumes "prefix (safe_word w1 @ ''_'') (safe_word w2)"
    and "CHR ''['' \<notin> set (safe_word w1)" and "\<not> has_double_star (safe_word w1)"
    and "CHR ''/'' \<notin> set (safe_word w2)"
    and "is_cached w w2 url"
  shows "\<exists>names. glob w (safe_word w1 @ ''_*.mp4'') = Inr names \<and>
                  get_cache_filename w2 url \<in> set names"
proof -
  let ?p = "safe_word w1 @ ''_*.mp4''" and ?name = "get_cache_filename w2 url"
  from assms(1) obtain rest where s2: "safe_word w2 = safe_word w1 @ ''_'' @ rest"
    by (auto simp: prefix_def)
  have 1: "?p \<noteq> []" and 3: "?p \<noteq> ''.''" by auto
  have 2: "CHR ''/'' \<notin> set ?p" using assms(4) by (simp add: s2)
  have 4: "\<not> has_double_star ?p" using assms(3) by (rule has_double_star_append)
  have e: "entry_name ?name = Some ?name" using assms(4) by (rule entry_name_cache_filename)
  have c: "component_match ?p ?name"
    using assms(1,2) by (rule longer_word_matches_shorter_pattern)
  from assms(5) have ex: "?name \<in> set (map fst (files w))"
    by (simp add: is_cached_def exists_def)
  show ?thesis
    unfolding glob_single [OF 1 2 3 4] using ex e c by simp
qed

lemma glob_all_cache_filename:
  assumes "CHR ''/'' \<notin> set (safe_word w2)" and "is_cached w w2 url"
  shows "\<exists>names. glob w ''*.mp4'' = Inr names \<and> get_cache_filename w2 url \<in> set names"
proof -
  let ?name = "get_cache_filename w2 url"
  have e: "entry_name ?name = Some ?name" using assms(1) by (rule entry_name_cache_filename)
  have "suffix ''.mp4'' ?name" by (simp add: get_cache_filename_def suffix_def)
  with e have "selected None ?name" by (simp add: selected_def)
  moreover from assms(2) have "?name \<in> set (map fst (files w))"
    by (simp add: is_cached_def exists_def)
  ultimately show ?thesis unfolding glob_all_mp4 by simp
qed

text \<open>
  C10, as stated: whenever the file-name form of one word, extended by an underscore, is
  a prefix of the file-name form of another, listing or clearing the shorter word
  includes the cache entries of the longer one. It fails, since the word enters the
  pattern unescaped: for the word \<open>[a]\<close> the pattern \<open>[a]_*.mp4\<close> asks for names that
  begin with \<open>a_\<close>, so the cached file of the word \<open>[a] b\<close> is neither listed nor
  cleared; and for the word \<open>**\<close> both operations raise \<open>ValueError\<close>, with the file
  of the word \<open>** x\<close> in the cache.
\<close>

theorem bracket_word_counterexample:
  "prefix (safe_word ''[a]'' @ ''_'') (safe_word ''[a] b'') \<and>
   is_cached bracket_cache ''[a] b'' ''https://example.com/a.mp4'' \<and>
   get_cached_videos bracket_cache ''[a]'' = Inr [] \<and>
   clear_cache bracket_cache (Some ''[a]'') = (bracket_cache, Inr 0) \<and>
   prefix (safe_word ''**'' @ ''_'') (safe_word ''** x'') \<and>
   is_cached star_cache ''** x'' ''https://example.com/a.mp4'' \<and>
   get_cached_videos star_cache ''**'' = Inl ValueError \<and>
   clear_cache star_cache (Some ''**'') = (star_cache, Inl ValueError)"
proof -
  have 1: "prefix (safe_word ''[a]'' @ ''_'') (safe_word ''[a] b'')" by code_simp
  have 2: "is_cached bracket_cache ''[a] b'' ''https://example.com/a.mp4''" by code_simp
  have 3: "glob bracket_cache (safe_word ''[a]'' @ ''_*.mp4'') = Inr []" by code_simp
  have 4: "get_cached_videos bracket_cache ''[a]'' = Inr []"
    by (simp add: get_cached_videos_def Let_def 3)
  have 5: "clear_cache bracket_cache (Some ''[a]'') = (bracket_cache, Inr 0)"
    by (simp add: clear_cache_def files_to_delete_def 3)
  have 6: "prefix (safe_word ''**'' @ ''_'') (safe_word ''** x'')" by code_simp
  have 7: "is_cached star_cache ''** x'' ''https://example.com/a.mp4''" by code_simp
  have 8: "glob star_cache (safe_word ''**'' @ ''_*.mp4'') = Inl ValueError" by code_simp
  have 9: "get_cached_videos star_cache ''**'' = Inl ValueError"
    by (simp add: get_cached_videos_def Let_def 8)
  have 10: "clear_cache star_cache (Some ''**'') = (star_cache, Inl ValueError)"
    by (simp add: clear_cache_def files_to_delete_def 8)
  from 1 2 4 5 6 7 9 10 show ?thesis by blast
qed

text \<open>
  C10, amended: let the file-name form of the first word, extended by an underscore, be a
  prefix of the file-name form of the second, let the first hold neither \<open>[\<close> nor two
  \<open>*\<close> in a row, and the second no \<open>/\<close>. Then for every cached URL of the second
  word \<open>get_cached_videos\<close> of the first word returns a list that holds its cache path,
  and \<open>clear_cache\<close> of the first word returns and, unless the deletion of the file
  fails, leaves the URL uncached.
\<close>

theorem shorter_word_selects_longer_word:
  assumes "prefix (safe_word w1 @ ''_'') (safe_word w2)"
    and "CHR ''['' \<notin> set (safe_word w1)" and "\<not> has_double_star (safe_word w1)"
    and "CHR ''/'' \<notin> set (safe_word w2)"
    and "is_cached w w2 url"
  shows "(\<exists>paths. get_cached_videos w w1 = Inr paths \<and> get_cache_path w w2 url \<in> set paths) \<and>
         (\<exists>w' count. clear_cache w (Some w1) = (w', Inr count) \<and>
            (get_cache_filename w2 url \<notin> set (locked w) \<longrightarrow> \<not> is_cached w' w2 url))"
proof -
  let ?name = "get_cache_filename w2 url"
  from glob_shorter_word [OF assms]
  obtain names where g: "glob w (safe_word w1 @ ''_*.mp4'') = Inr names" and m: "?name \<in> set names"
    by blast
  have "get_cached_videos w w1 = Inr (map (str_path w) names)"
    by (simp add: get_cached_videos_def Let_def g)
  moreover have "get_cache_path w w2 url \<in> set (map (str_path w) names)"
    using m by (auto simp: str_path_def get_cache_path_def)
  ultimately have 1: "\<exists>paths. get_cached_videos w w1 = Inr paths \<and> get_cache_path w w2 url \<in> set paths"
    by blast
  from glob_all_cache_filename [OF assms(4,5)]
  obtain names' where g': "glob w ''*.mp4'' = Inr names'" and m': "?name \<in> set names'"
    by blast
  have "\<exists>file_paths. files_to_delete w (Some w1) = Inr file_paths \<and> ?name \<in> set file_paths"
    using g m g' m' by (simp add: files_to_delete_def)
  then obtain file_paths where F: "files_to_delete w (Some w1) = Inr file_paths"
    and mF: "?name \<in> set file_paths" by blast
  let ?w' = "w\<lparr>files := filter (\<lambda>entry. \<not> (fst entry \<in> set file_paths \<and> fst entry \<notin> set (locked w)))
                           (files w)\<rparr>"
  have c: "clear_cache w (Some w1) = (?w', Inr (snd (delete_loop w file_paths 0)))"
    using F by (rule clear_cache_names)
  have "?name \<notin> set (locked w) \<longrightarrow> \<not> is_cached ?w' w2 url"
    using mF by (auto simp: is_cached_def exists_def)
  with c have 2: "\<exists>w' count. clear_cache w (Some w1) = (w', Inr count) \<and>
            (?name \<notin> set (locked w) \<longrightarrow> \<not> is_cached w' w2 url)"
    by blast
  from 1 2 show ?thesis by blast
qed

theorem shorter_word_selects_longer_word_witness:
  "prefix (safe_word ''hello'' @ ''_'') (safe_word ''hello world'') \<and>
   CHR ''['' \<notin> set (safe_word ''hello'') \<and> \<not> has_double_star (safe_word ''hello'') \<and>
   CHR ''/'' \<notin> set (safe_word ''hello world'') \<and>
   is_cached phrase_cache ''hello world'' ''https://example.com/a.mp4'' \<and>
   get_cache_filename ''hello world'' ''https://example.com/a.mp4'' \<notin> set (locked phrase_cache) \<and>
   (\<exists>paths. get_cached_videos phrase_cache ''hello'' = Inr paths \<and>
      get_cache_path phrase_cache ''hello world'' ''https://example.com/a.mp4'' \<in> set paths) \<and>
   (\<exists>w' count. clear_cache phrase_cache (Some ''hello'') = (w', Inr count) \<and>
      \<not> is_cached w' ''hello world'' ''https://example.com/a.mp4'')"
proof -
  have 1: "prefix (safe_word ''hello'' @ ''_'') (safe_word ''hello world'')" by code_simp
  have 2: "CHR ''['' \<notin> set (safe_word ''hello'')" by code_simp
  have 3: "\<not> has_double_star (safe_word ''hello'')" by code_simp
  have 4: "CHR ''/'' \<notin> set (safe_word ''hello world'')" by code_simp
  have 5: "is_cached phrase_cache ''hello world'' ''https://example.com/a.mp4''" by code_simp
  have 6: "get_cache_filename ''hello world'' ''https://example.com/a.mp4'' \<notin> set (locked phrase_cache)"
    by (simp add: phrase_cache_def)
  from shorter_word_selects_longer_word [OF 1 2 3 4 5] 1 2 3 4 5 6 show ?thesis by blast
qed

end
